theory Spec2Isabelle
  imports Main "HOL-Library.Word"
begin

unbundle bit_operations_syntax

section \<open>Buffers and the errors of the runtime\<close>

text \<open>
  A Node \<^verbatim>\<open>Buffer\<close> is a list of bytes.  Every \<^verbatim>\<open>throw\<close> of the source and every
  range error of a Buffer accessor is a value of \<open>error\<close>; a function that can throw
  returns \<open>error + 'a\<close>, with \<open>Inl\<close> for the exception.
\<close>

type_synonym byte = "8 word"
type_synonym buffer = "byte list"

datatype error =
    TooFewBytes             \<comment> \<open>"Too few bytes to be a destination"\<close>
  | BareError               \<comment> \<open>\<^verbatim>\<open>throw new Error()\<close> without a message\<close>
  | ERR_OUT_OF_RANGE        \<comment> \<open>RangeError of a Buffer read or write\<close>
  | UnsupportedSigningType  \<comment> \<open>"Unsupported signing type"\<close>
  | UnsupportedCertType     \<comment> \<open>"Unsupported destination cert type"\<close>
  | UnexpectedEndDateLength \<comment> \<open>"unexpected end date length"\<close>
  | Lease2WrongLength       \<comment> \<open>"Lease2 is not the right length, ..."\<close>
  | StringTooLong           \<comment> \<open>"The I2P data spec limits strings to 255 bytes or less, ..."\<close>
  | ErrorParsingValue       \<comment> \<open>"Error parsing value"\<close>
  | NotAFunction            \<comment> \<open>TypeError: the called value is not a function\<close>
  | SecretKeyLength         \<comment> \<open>"Secret key must be 32 bytes"\<close>
  | CannotMultiplyBy0       \<comment> \<open>"cannot multiply by 0"\<close>
  | InvalidScalar           \<comment> \<open>"invalid scalar, must be < L"\<close>

text \<open>
  \<^verbatim>\<open>buf.subarray(start, end)\<close> for non-negative indices: both ends are clamped to the
  length, and an end before the start gives the empty buffer.  On lists this is
  \<open>take (e - s) (drop s xs)\<close>, the subtraction of \<open>nat\<close> stopping at 0.
\<close>

definition subarray :: "'a list \<Rightarrow> nat \<Rightarrow> nat \<Rightarrow> 'a list" where
  "subarray xs s e = take (e - s) (drop s xs)"

text \<open>Big-endian reads and writes.  A read past the end and a write of a value that does
  not fit both throw \<^verbatim>\<open>ERR_OUT_OF_RANGE\<close>.\<close>

fun be_to_nat :: "buffer \<Rightarrow> nat" where
  "be_to_nat [] = 0"
| "be_to_nat (b # bs) = unat b * 256 ^ length bs + be_to_nat bs"

fun nat_to_be :: "nat \<Rightarrow> nat \<Rightarrow> buffer" where
  "nat_to_be 0 v = []"
| "nat_to_be (Suc k) v = word_of_nat (v div 256 ^ k) # nat_to_be k v"

definition readUIntBE :: "buffer \<Rightarrow> nat \<Rightarrow> nat \<Rightarrow> error + nat" where
  "readUIntBE buf off n =
     (if off + n \<le> length buf then Inr (be_to_nat (subarray buf off (off + n)))
      else Inl ERR_OUT_OF_RANGE)"

definition writeUIntBE :: "nat \<Rightarrow> nat \<Rightarrow> error + buffer" where
  "writeUIntBE n v = (if v < 256 ^ n then Inr (nat_to_be n v) else Inl ERR_OUT_OF_RANGE)"

section \<open>Router-control client: lookup ids\<close>

text \<open>
  \<^verbatim>\<open>I2CPSession.generateLookupId\<close>: the field \<^verbatim>\<open>lookupId\<close> starts at 0; a call resets it
  to 0 when it is above 65535, increments it and returns it.  The session state is
  the field; the call returns the id and the new state.
\<close>

definition generateLookupId :: "int \<Rightarrow> int \<times> int" where
  "generateLookupId lookupId =
     (let l1 = (if lookupId > 65535 then 0 else lookupId);
          l2 = l1 + 1
      in (l2, l2))"

text \<open>The state after \<open>n\<close> successive calls on a fresh session, and the ids they return.\<close>

fun lookupId_after :: "nat \<Rightarrow> int" where
  "lookupId_after 0 = 0"
| "lookupId_after (Suc n) = snd (generateLookupId (lookupId_after n))"

definition nth_lookup_id :: "nat \<Rightarrow> int" where
  "nth_lookup_id n = fst (generateLookupId (lookupId_after n))"

lemma lookupId_after_small: "n \<le> 65536 \<Longrightarrow> lookupId_after n = int n"
  by (induction n) (auto simp: generateLookupId_def Let_def)

lemma generateLookupId_range:
  "0 \<le> l \<Longrightarrow> l \<le> 65536 \<Longrightarrow>
     1 \<le> fst (generateLookupId l) \<and> fst (generateLookupId l) \<le> 65536"
  by (auto simp: generateLookupId_def Let_def)

text \<open>
  Claim C7 (request ids form a u16 counter that stays in 0..65535 and wraps at 65535).
  The guard is tested before the increment, so the call made in state 65535 returns
  65536: the 65536th id of a session is outside the u16 range, and only the call after
  it wraps (to 1).  The theorem evaluates the code at that call.
\<close>

theorem generateLookupId_leaves_u16:
  "nth_lookup_id 65534 = 65535 \<and> nth_lookup_id 65535 = 65536 \<and> nth_lookup_id 65536 = 1"
proof -
  have a: "lookupId_after 65534 = 65534" using lookupId_after_small [of 65534] by simp
  have b: "lookupId_after 65535 = 65535" using lookupId_after_small [of 65535] by simp
  have c: "lookupId_after 65536 = 65536" using lookupId_after_small [of 65536] by simp
  show ?thesis
    by (simp add: nth_lookup_id_def a b c generateLookupId_def Let_def)
qed


section \<open>Router-control client: lease conversion\<close>

text \<open>
  \<^verbatim>\<open>convertLease1sToLease2s(count, leases)\<close>.  The test
  \<^verbatim>\<open>leases.byteLength / count === 40\<close> divides two small integers as doubles: it holds
  exactly when \<open>count\<close> is not 0 and the length is \<open>40 * count\<close> (a zero count gives
  NaN or Infinity).  \<^verbatim>\<open>Number(readBigUint64BE(0))\<close> is exact below \<open>2^53\<close>, and
  \<^verbatim>\<open>Math.floor(endDate / 1000)\<close> is the integer quotient for every value whose
  quotient fits 32 bits (such a value is below \<open>2^42\<close>, and the rounding error of the
  division is far below 1/1000); every larger value gives a quotient of at least
  \<open>2^32\<close>, which \<^verbatim>\<open>writeUInt32BE\<close> refuses with ERR_OUT_OF_RANGE.
\<close>

definition LEASE_1_BYTE_LENGTH :: nat where "LEASE_1_BYTE_LENGTH = 44"
definition LEASE_2_BYTE_LENGTH :: nat where "LEASE_2_BYTE_LENGTH = 40"

definition lease_body :: "buffer \<Rightarrow> nat \<Rightarrow> error + buffer" where
  "lease_body leases i =
     (let lease = subarray leases (i * LEASE_1_BYTE_LENGTH) ((i + 1) * LEASE_1_BYTE_LENGTH);
          tunnelHashAndId = subarray lease 0 (32 + 4);
          oldEndDateBuffer = drop (32 + 4) lease
      in if length oldEndDateBuffer \<noteq> 8 then Inl UnexpectedEndDateLength
         else
           (let endDate = be_to_nat oldEndDateBuffer
            in case writeUIntBE 4 (endDate div 1000) of
                 Inl e \<Rightarrow> Inl e
               | Inr newEndDateBuffer \<Rightarrow>
                   (let newLease = tunnelHashAndId @ newEndDateBuffer
                    in if length newLease \<noteq> LEASE_2_BYTE_LENGTH then Inl Lease2WrongLength
                       else Inr newLease)))"

function lease_loop :: "nat \<Rightarrow> buffer \<Rightarrow> nat \<Rightarrow> buffer \<Rightarrow> error + buffer" where
  "lease_loop count leases i newBuff =
     (if i < count then
        (case lease_body leases i of
           Inl e \<Rightarrow> Inl e
         | Inr newLease \<Rightarrow> lease_loop count leases (i + 1) (newBuff @ newLease))
      else Inr newBuff)"
  by pat_completeness auto
termination
  by (relation "measure (\<lambda>(count, leases, i, newBuff). count - i)") auto

definition convertLease1sToLease2s :: "nat \<Rightarrow> buffer \<Rightarrow> error + buffer" where
  "convertLease1sToLease2s count leases =
     (if count \<noteq> 0 \<and> length leases = LEASE_2_BYTE_LENGTH * count then Inr leases
      else lease_loop count leases 0 [])"

text \<open>
  What the specification says a lease2 is: the first 36 bytes of the lease1 (gateway
  hash and tunnel id), then the expiration in seconds, floored, as 4 bytes big-endian.
\<close>

definition lease2_of_lease1 :: "buffer \<Rightarrow> buffer" where
  "lease2_of_lease1 l = take 36 l @ nat_to_be 4 (be_to_nat (drop 36 l) div 1000)"

lemma length_nat_to_be [simp]: "length (nat_to_be k v) = k"
  by (induction k) auto

lemma subarray_concat_nth:
  "\<forall>l\<in>set ls. length l = k \<Longrightarrow> i < length ls \<Longrightarrow>
     subarray (concat ls) (i * k) ((i + 1) * k) = ls ! i"
proof (induction ls arbitrary: i)
  case Nil then show ?case by simp
next
  case (Cons a ls)
  show ?case
  proof (cases i)
    case 0
    with Cons.prems show ?thesis by (simp add: subarray_def)
  next
    case (Suc j)
    with Cons.prems have j: "j < length ls" by simp
    from Cons.prems have la: "length a = k" by simp
    have "subarray (concat (a # ls)) (i * k) ((i + 1) * k) = subarray (concat ls) (j * k) ((j + 1) * k)"
      using la Suc by (simp add: subarray_def)
    also have "\<dots> = ls ! j" using Cons.IH [OF _ j] Cons.prems by simp
    finally show ?thesis using Suc by simp
  qed
qed

lemma lease_body_ok:
  assumes "length l = 44" "be_to_nat (drop 36 l) div 1000 < 2 ^ 32"
    and "subarray leases (i * 44) ((i + 1) * 44) = l"
  shows "lease_body leases i = Inr (lease2_of_lease1 l)"
  using assms
  by (simp add: lease_body_def LEASE_1_BYTE_LENGTH_def LEASE_2_BYTE_LENGTH_def Let_def
      writeUIntBE_def lease2_of_lease1_def subarray_def)

lemma lease_loop_ok:
  assumes "\<forall>l\<in>set ls. length l = 44"
    and "\<forall>l\<in>set ls. be_to_nat (drop 36 l) div 1000 < 2 ^ 32"
  shows "i \<le> length ls \<Longrightarrow>
     lease_loop (length ls) (concat ls) i acc =
       Inr (acc @ concat (map lease2_of_lease1 (drop i ls)))"
proof (induction "length ls - i" arbitrary: i acc)
  case 0
  then show ?case by simp
next
  case (Suc d)
  then have i: "i < length ls" by simp
  have mem: "ls ! i \<in> set ls" using i by simp
  have sub: "subarray (concat ls) (i * 44) ((i + 1) * 44) = ls ! i"
    using subarray_concat_nth [OF assms(1) i] .
  have body: "lease_body (concat ls) i = Inr (lease2_of_lease1 (ls ! i))"
    using lease_body_ok [OF _ _ sub] assms mem by blast
  have d: "d = length ls - (i + 1)" using Suc.hyps(2) by simp
  have "lease_loop (length ls) (concat ls) i acc =
        lease_loop (length ls) (concat ls) (i + 1) (acc @ lease2_of_lease1 (ls ! i))"
    using i body by simp
  also have "\<dots> = Inr ((acc @ lease2_of_lease1 (ls ! i)) @ concat (map lease2_of_lease1 (drop (i + 1) ls)))"
    using Suc.hyps(1) [OF d] i by simp
  also have "\<dots> = Inr (acc @ concat (map lease2_of_lease1 (drop i ls)))"
    using i by (simp add: Cons_nth_drop_Suc [symmetric])
  finally show ?case .
qed

lemma be_to_nat_nat_to_be: "be_to_nat (nat_to_be k v) = v mod 256 ^ k"
proof (induction k)
  case 0
  then show ?case by simp
next
  case (Suc k)
  have "unat (word_of_nat (v div 256 ^ k) :: byte) = (v div 256 ^ k) mod 256"
    by (simp add: unat_of_nat)
  then have "be_to_nat (nat_to_be (Suc k) v) = (v div 256 ^ k) mod 256 * 256 ^ k + v mod 256 ^ k"
    using Suc by simp
  also have "\<dots> = 256 ^ k * ((v div 256 ^ k) mod 256) + v mod 256 ^ k"
    by (simp only: mult.commute)
  also have "\<dots> = v mod (256 ^ k * 256)"
    by (rule mod_mult2_eq [symmetric])
  also have "\<dots> = v mod 256 ^ Suc k"
    by (simp only: power_Suc2)
  finally show ?case .
qed

lemma nat_to_be_2: "nat_to_be 2 v = [word_of_nat (v div 256), word_of_nat v]"
  by (simp add: numeral_2_eq_2)

lemma nat_to_be_4:
  "nat_to_be 4 v =
     [word_of_nat (v div 256 ^ 3), word_of_nat (v div 256 ^ 2), word_of_nat (v div 256),
      word_of_nat v]"
proof -
  have e: "(4::nat) = Suc (Suc (Suc (Suc 0)))" by simp
  show ?thesis unfolding e by (simp add: numeral_2_eq_2 numeral_3_eq_3)
qed

text \<open>
  Claim C6 (every buffer of \<open>n \<ge> 1\<close> lease1 structures of 44 bytes is converted to \<open>n\<close>
  lease2 structures of 40 bytes).  As stated the claim fails: an expiration of
  \<open>2^32 * 1000\<close> ms or more has no 4-byte seconds value, and the conversion throws.
\<close>

theorem convertLease1sToLease2s_counterexample:
  "convertLease1sToLease2s 1 (replicate 36 0 @ [255, 255, 255, 255, 255, 255, 255, 255]) = Inl ERR_OUT_OF_RANGE"
  by (simp add: convertLease1sToLease2s_def LEASE_2_BYTE_LENGTH_def lease_body_def
     LEASE_1_BYTE_LENGTH_def Let_def subarray_def writeUIntBE_def)


text \<open>
  Claim C6, amended: when every expiration, in seconds, fits 32 bits, the result is the
  concatenation of the converted leases, each of 40 bytes, whose last four bytes read
  back as the expiration in whole seconds.
\<close>

theorem convertLease1sToLease2s_in_range:
  assumes "1 \<le> n" "length ls = n"
    and "\<forall>l\<in>set ls. length l = 44"
    and "\<forall>l\<in>set ls. be_to_nat (drop 36 l) div 1000 < 2 ^ 32"
  shows "convertLease1sToLease2s n (concat ls) = Inr (concat (map lease2_of_lease1 ls))
       \<and> (\<forall>l\<in>set ls. length (lease2_of_lease1 l) = 40
             \<and> be_to_nat (drop 36 (lease2_of_lease1 l)) = be_to_nat (drop 36 l) div 1000)"
proof -
  have len: "length (concat ls) = 44 * n"
    using assms(2,3) by (induction ls arbitrary: n) auto
  have "convertLease1sToLease2s n (concat ls) = lease_loop n (concat ls) 0 []"
    using assms(1) len by (simp add: convertLease1sToLease2s_def LEASE_2_BYTE_LENGTH_def)
  also have "\<dots> = Inr (concat (map lease2_of_lease1 ls))"
    using lease_loop_ok [OF assms(3,4), of 0 "[]"] assms(2) by simp
  finally show ?thesis
    using assms(3,4) by (simp add: lease2_of_lease1_def be_to_nat_nat_to_be)
qed

theorem convertLease1sToLease2s_in_range_witness:
  "convertLease1sToLease2s 1 (concat [replicate 36 7 @ [0, 0, 0, 0, 0, 0, 7, 208]])
     = Inr (replicate 36 7 @ [0, 0, 0, 2])"
  using convertLease1sToLease2s_in_range [of 1 "[replicate 36 7 @ [0, 0, 0, 0, 0, 0, 7, 208]]"]
  by (simp add: lease2_of_lease1_def nat_to_be_4)

section \<open>Router-control client: length-prefixed strings\<close>

text \<open>
  A JavaScript string is a sequence of UTF-16 code units; \<^verbatim>\<open>s.length\<close> counts them and
  \<^verbatim>\<open>s.charCodeAt(i)\<close> reads one.
\<close>

type_synonym jsstring = "16 word list"

text \<open>
  \<^verbatim>\<open>buf.toString("utf-8")\<close>: the standard UTF-8 decoder, as a state machine over the
  code point under construction, the continuation bytes seen and needed, and the
  bounds of the next continuation byte.  An ill-formed sequence gives U+FFFD and
  decoding resumes at the byte that broke it.  A code point above U+FFFF becomes a
  surrogate pair.
\<close>

function utf8_decode :: "nat \<Rightarrow> nat \<Rightarrow> nat \<Rightarrow> nat \<Rightarrow> nat \<Rightarrow> buffer \<Rightarrow> nat list" where
  "utf8_decode cp seen needed lower upper [] = (if needed \<noteq> 0 then [0xFFFD] else [])"
| "utf8_decode cp seen needed lower upper (b # bs) =
     (let x = unat b in
      if needed = 0 then
        (if x \<le> 0x7F then x # utf8_decode 0 0 0 0x80 0xBF bs
         else if 0xC2 \<le> x \<and> x \<le> 0xDF then utf8_decode (x mod 32) 0 1 0x80 0xBF bs
         else if 0xE0 \<le> x \<and> x \<le> 0xEF then
           utf8_decode (x mod 16) 0 2 (if x = 0xE0 then 0xA0 else 0x80)
             (if x = 0xED then 0x9F else 0xBF) bs
         else if 0xF0 \<le> x \<and> x \<le> 0xF4 then
           utf8_decode (x mod 8) 0 3 (if x = 0xF0 then 0x90 else 0x80)
             (if x = 0xF4 then 0x8F else 0xBF) bs
         else 0xFFFD # utf8_decode 0 0 0 0x80 0xBF bs)
      else if x < lower \<or> upper < x then 0xFFFD # utf8_decode 0 0 0 0x80 0xBF (b # bs)
      else
        (let cp' = cp * 64 + x mod 64; seen' = seen + 1 in
         if seen' \<noteq> needed then utf8_decode cp' seen' needed 0x80 0xBF bs
         else cp' # utf8_decode 0 0 0 0x80 0xBF bs))"
  by pat_completeness auto
termination
  by (relation "measure (\<lambda>(cp, seen, needed, lower, upper, bs).
        2 * length bs + (if needed = 0 then 0 else 1))") auto

definition code_units :: "nat \<Rightarrow> jsstring" where
  "code_units c =
     (if c < 0x10000 then [word_of_nat c]
      else [word_of_nat (0xD800 + (c - 0x10000) div 1024),
            word_of_nat (0xDC00 + (c - 0x10000) mod 1024)])"

definition utf8_toString :: "buffer \<Rightarrow> jsstring" where
  "utf8_toString bs = concat (map code_units (utf8_decode 0 0 0 0x80 0xBF bs))"

text \<open>
  \<^verbatim>\<open>I2CPBufferToString\<close> and \<^verbatim>\<open>stringToI2CPBuffer\<close>.  \<^verbatim>\<open>readUInt8(0)\<close> throws on an empty
  buffer; a \<^verbatim>\<open>null\<close> string is \<open>None\<close>.  The encoder writes \<^verbatim>\<open>charCodeAt(i) & 0xff\<close> for
  every code unit.
\<close>

definition I2CPBufferToString :: "buffer \<Rightarrow> error + jsstring option" where
  "I2CPBufferToString buffer =
     (case buffer of
        [] \<Rightarrow> Inl ERR_OUT_OF_RANGE
      | b # _ \<Rightarrow>
          (let length = unat b in
           if length = 0 then Inr None
           else Inr (Some (utf8_toString (subarray buffer 1 (length + 1))))))"

definition stringToI2CPBuffer :: "jsstring option \<Rightarrow> error + buffer" where
  "stringToI2CPBuffer string =
     (case string of
        None \<Rightarrow> Inr [0]
      | Some s \<Rightarrow>
          (let len = length s in
           if len > 255 then Inl StringTooLong
           else
             (let lengthBuffer = [word_of_nat len :: byte];
                  bytes = map (\<lambda>c. ucast (c AND 0xff) :: byte) s
              in Inr (lengthBuffer @ bytes))))"

lemma utf8_decode_ascii:
  "\<forall>b\<in>set bs. b < 0x80 \<Longrightarrow> utf8_decode 0 0 0 0x80 0xBF bs = map unat bs"
proof (induction bs)
  case Nil then show ?case by simp
next
  case (Cons b bs)
  then have "b < 0x80" by simp
  then have "unat b \<le> 0x7F" by (simp add: word_less_nat_alt)
  with Cons show ?case by simp
qed

lemma ucast_and_ff: fixes c :: "16 word" shows "(ucast (c AND 0xff) :: byte) = ucast c"
proof -
  have "(0xff :: 16 word) = mask 8" by (simp add: mask_eq_exp_minus_1)
  then have "c AND 0xff = take_bit 8 c" by (simp add: take_bit_eq_mask)
  then show ?thesis
    by (simp add: word_eq_iff_unsigned [where ?'a = nat] unsigned_ucast_eq unsigned_take_bit_eq)
qed

lemma ucast_ascii_less: fixes c :: "16 word" assumes "c < 0x80"
  shows "(ucast c :: byte) < 0x80"
proof -
  have "unat c < 128" using assms by (simp add: word_less_nat_alt)
  then have "unat (ucast c :: byte) < 128"
    by (simp add: unsigned_ucast_eq take_bit_nat_eq_self)
  then show ?thesis by (simp add: word_less_nat_alt)
qed

lemma ucast_ascii_id: fixes c :: "16 word" assumes "c < 0x80"
  shows "(ucast (ucast c :: byte) :: 16 word) = c"
proof -
  have "unat c < 128" using assms by (simp add: word_less_nat_alt)
  then have "unat (ucast (ucast c :: byte) :: 16 word) = unat c"
    by (simp add: unsigned_ucast_eq unsigned_take_bit_eq take_bit_nat_eq_self)
  then show ?thesis by (simp only: word_unat_eq_iff)
qed

lemma utf8_toString_ascii:
  assumes a: "\<forall>b\<in>set bs. b < 0x80"
  shows "utf8_toString bs = map (\<lambda>b. ucast b) bs"
proof -
  have u: "unat b < 65536" for b :: byte
    using unsigned_less [of b, where ?'a = nat] by simp
  have "concat (map code_units (map unat bs)) = map (\<lambda>b. ucast b) bs"
    by (induction bs) (auto simp: code_units_def u)
  then show ?thesis using utf8_decode_ascii [OF a] by (simp add: utf8_toString_def)
qed


lemma stringToI2CPBuffer_throws:
  "(\<exists>e. stringToI2CPBuffer (Some s) = Inl e) \<longleftrightarrow> 255 < length s"
  by (simp add: stringToI2CPBuffer_def Let_def)

lemma I2CP_string_roundtrip:
  assumes "s \<noteq> []" "length s \<le> 255" "\<forall>c\<in>set s. c < 0x80"
  shows "stringToI2CPBuffer (Some s) = Inr (word_of_nat (length s) # map (\<lambda>c. ucast (c AND 0xff)) s)"
    and "I2CPBufferToString (word_of_nat (length s) # map (\<lambda>c. ucast (c AND 0xff)) s) = Inr (Some s)"
proof -
  let ?bytes = "map (\<lambda>c. ucast (c AND 0xff) :: byte) s"
  show "stringToI2CPBuffer (Some s) = Inr (word_of_nat (length s) # ?bytes)"
    using assms(2) by (simp add: stringToI2CPBuffer_def Let_def)
  have len: "unat (word_of_nat (length s) :: byte) = length s"
    using assms(2) by (simp add: unat_of_nat)
  have ne: "length s \<noteq> 0" using assms(1) by simp
  have sub: "subarray (word_of_nat (length s) # ?bytes) 1 (length s + 1) = ?bytes"
    by (simp add: subarray_def)
  have asc: "\<forall>b\<in>set ?bytes. b < 0x80"
    using assms(3) by (auto simp: ucast_and_ff ucast_ascii_less)
  have "utf8_toString ?bytes = map (\<lambda>b. ucast b) ?bytes"
    by (rule utf8_toString_ascii [OF asc])
  also have "\<dots> = map (\<lambda>c. c) s"
    unfolding map_map by (rule map_cong [OF refl]) (simp add: assms(3) ucast_and_ff ucast_ascii_id)
  finally have dec: "utf8_toString ?bytes = s" by simp
  show "I2CPBufferToString (word_of_nat (length s) # ?bytes) = Inr (Some s)"
    unfolding I2CPBufferToString_def list.case Let_def len sub dec using ne by simp
qed

text \<open>
  Claim C10 (the encoder throws exactly above 255 code units; a non-empty string of
  single-byte characters survives the round trip; null and the empty string both
  encode to the byte 0, which decodes to null).  A code unit in 0x80..0xFF fits one
  byte and is written as that byte, but the decoder reads UTF-8, where such a byte
  alone is ill-formed: the round trip fails for it.
\<close>

theorem I2CP_string_latin1_counterexample:
  "(0xE9 :: 16 word) < 0x100
   \<and> stringToI2CPBuffer (Some [0xE9]) = Inr [1, 0xE9]
   \<and> I2CPBufferToString [1, 0xE9] = Inr (Some [0xFFFD])
   \<and> I2CPBufferToString [1, 0xE9] \<noteq> Inr (Some [0xE9])"
  by (simp add: stringToI2CPBuffer_def I2CPBufferToString_def subarray_def utf8_toString_def
      code_units_def)

text \<open>
  Claim C10, amended: the round trip holds for every non-empty string of at most 255
  code units that are all below 0x80 (the characters UTF-8 encodes in one byte); the
  rest of the claim holds as stated.
\<close>

theorem I2CP_string_codec:
  "(\<forall>s. (\<exists>e. stringToI2CPBuffer (Some s) = Inl e) \<longleftrightarrow> 255 < length s)
   \<and> (\<forall>s. s \<noteq> [] \<and> length s \<le> 255 \<and> (\<forall>c\<in>set s. c < 0x80) \<longrightarrow>
          (\<exists>b. stringToI2CPBuffer (Some s) = Inr b \<and> I2CPBufferToString b = Inr (Some s)))
   \<and> stringToI2CPBuffer None = Inr [0]
   \<and> stringToI2CPBuffer (Some []) = Inr [0]
   \<and> I2CPBufferToString [0] = Inr None
   \<and> I2CPBufferToString [0] \<noteq> Inr (Some [])"
proof (intro conjI allI impI)
  fix s :: jsstring
  show "(\<exists>e. stringToI2CPBuffer (Some s) = Inl e) \<longleftrightarrow> 255 < length s"
    by (rule stringToI2CPBuffer_throws)
next
  fix s :: jsstring
  assume "s \<noteq> [] \<and> length s \<le> 255 \<and> (\<forall>c\<in>set s. c < 0x80)"
  then show "\<exists>b. stringToI2CPBuffer (Some s) = Inr b \<and> I2CPBufferToString b = Inr (Some s)"
    using I2CP_string_roundtrip [of s] by blast
qed (simp_all add: stringToI2CPBuffer_def I2CPBufferToString_def)

theorem I2CP_string_codec_witness:
  "stringToI2CPBuffer (Some [0x30, 0x2E, 0x39, 0x2E, 0x36, 0x35]) = Inr [6, 0x30, 0x2E, 0x39, 0x2E, 0x36, 0x35]
   \<and> I2CPBufferToString [6, 0x30, 0x2E, 0x39, 0x2E, 0x36, 0x35] = Inr (Some [0x30, 0x2E, 0x39, 0x2E, 0x36, 0x35])"
proof -
  let ?s = "[0x30, 0x2E, 0x39, 0x2E, 0x36, 0x35] :: jsstring"
  have enc: "stringToI2CPBuffer (Some ?s) = Inr [6, 0x30, 0x2E, 0x39, 0x2E, 0x36, 0x35]"
    by (simp add: stringToI2CPBuffer_def)
  have "?s \<noteq> [] \<and> length ?s \<le> 255 \<and> (\<forall>c\<in>set ?s. c < 0x80)" by simp
  then have "\<exists>b. stringToI2CPBuffer (Some ?s) = Inr b \<and> I2CPBufferToString b = Inr (Some ?s)"
    using I2CP_string_codec by blast
  then show ?thesis unfolding enc by simp
qed

section \<open>Session-bridge client: the reply parser\<close>

text \<open>
  String literals of the source are written \<open>js ''...''\<close>.  \<^verbatim>\<open>substring\<close> clamps both
  indices to the length and swaps them when the first is larger; \<^verbatim>\<open>indexOf\<close> returns
  \<open>-1\<close> when the character does not occur from the given position on.
\<close>

definition js :: "string \<Rightarrow> jsstring" where
  "js s = map of_char s"

definition startsWith :: "jsstring \<Rightarrow> jsstring \<Rightarrow> bool" where
  "startsWith s p = (take (length p) s = p)"

definition substring :: "jsstring \<Rightarrow> int \<Rightarrow> int \<Rightarrow> jsstring" where
  "substring s indexStart indexEnd =
     (let len = int (length s);
          a = min (max indexStart 0) len;
          b = min (max indexEnd 0) len;
          lo = min a b;
          hi = max a b
      in take (nat (hi - lo)) (drop (nat lo) s))"

definition substring_from :: "jsstring \<Rightarrow> int \<Rightarrow> jsstring" where
  "substring_from s indexStart = substring s indexStart (int (length s))"

fun find_from :: "16 word \<Rightarrow> jsstring \<Rightarrow> int \<Rightarrow> int" where
  "find_from c [] i = - 1"
| "find_from c (x # xs) i = (if x = c then i else find_from c xs (i + 1))"

definition indexOf :: "jsstring \<Rightarrow> 16 word \<Rightarrow> int \<Rightarrow> int" where
  "indexOf s c from = (let k = nat (max 0 from) in find_from c (drop k s) (int k))"

definition is_js_whitespace :: "16 word \<Rightarrow> bool" where
  "is_js_whitespace c \<longleftrightarrow>
     c \<in> {0x9, 0xA, 0xB, 0xC, 0xD, 0x20, 0xA0, 0x1680, 0x2028, 0x2029, 0x202F, 0x205F,
          0x3000, 0xFEFF} \<or> (0x2000 \<le> c \<and> c \<le> 0x200A)"

definition trim :: "jsstring \<Rightarrow> jsstring" where
  "trim s = rev (dropWhile is_js_whitespace (rev (dropWhile is_js_whitespace s)))"

text \<open>
  \<^verbatim>\<open>JSON.parse\<close> on a text that starts with a double quote: the text must be one JSON
  string, followed by JSON white space only.  \<open>None\<close> is the SyntaxError.
\<close>

definition hex_digit :: "16 word \<Rightarrow> nat option" where
  "hex_digit c =
     (if 0x30 \<le> c \<and> c \<le> 0x39 then Some (unat c - 0x30)
      else if 0x41 \<le> c \<and> c \<le> 0x46 then Some (unat c - 0x41 + 10)
      else if 0x61 \<le> c \<and> c \<le> 0x66 then Some (unat c - 0x61 + 10)
      else None)"

fun json_string_body :: "jsstring \<Rightarrow> jsstring \<Rightarrow> (jsstring \<times> jsstring) option" where
  "json_string_body [] acc = None"
| "json_string_body (c # cs) acc =
     (if c = 0x22 then Some (acc, cs)
      else if c = 0x5C then
        (case cs of
           [] \<Rightarrow> None
         | e # es \<Rightarrow>
             if e = 0x22 \<or> e = 0x5C \<or> e = 0x2F then json_string_body es (acc @ [e])
             else if e = 0x62 then json_string_body es (acc @ [0x8])
             else if e = 0x66 then json_string_body es (acc @ [0xC])
             else if e = 0x6E then json_string_body es (acc @ [0xA])
             else if e = 0x72 then json_string_body es (acc @ [0xD])
             else if e = 0x74 then json_string_body es (acc @ [0x9])
             else if e = 0x75 then
               (case es of
                  h1 # h2 # h3 # h4 # rest \<Rightarrow>
                    (case (hex_digit h1, hex_digit h2, hex_digit h3, hex_digit h4) of
                       (Some d1, Some d2, Some d3, Some d4) \<Rightarrow>
                         json_string_body rest
                           (acc @ [word_of_nat (((d1 * 16 + d2) * 16 + d3) * 16 + d4)])
                     | _ \<Rightarrow> None)
                | _ \<Rightarrow> None)
             else None)
      else if c < 0x20 then None
      else json_string_body cs (acc @ [c]))"

definition JSON_parse_string :: "jsstring \<Rightarrow> jsstring option" where
  "JSON_parse_string text =
     (case text of
        [] \<Rightarrow> None
      | q # cs \<Rightarrow>
          if q \<noteq> 0x22 then None
          else
            (case json_string_body cs [] of
               None \<Rightarrow> None
             | Some (v, rest) \<Rightarrow>
                 if \<forall>w\<in>set rest. w \<in> {0x20, 0x9, 0xA, 0xD} then Some v else None))"

text \<open>
  \<^verbatim>\<open>parseArgString\<close>: the loop over the characters, with the arguments found so far,
  the current argument and the quote flag.
\<close>

fun parseArgString_loop :: "jsstring \<Rightarrow> jsstring list \<Rightarrow> jsstring \<Rightarrow> bool \<Rightarrow> jsstring list" where
  "parseArgString_loop [] args currentArg inQuotes =
     (if currentArg \<noteq> [] then args @ [currentArg] else args)"
| "parseArgString_loop (char # rest) args currentArg inQuotes =
     (if char = 0x22 then parseArgString_loop rest args (currentArg @ [char]) (\<not> inQuotes)
      else if char = 0x20 \<and> \<not> inQuotes then
        (if currentArg \<noteq> [] then parseArgString_loop rest (args @ [currentArg]) [] inQuotes
         else parseArgString_loop rest args currentArg inQuotes)
      else parseArgString_loop rest args (currentArg @ [char]) inQuotes)"

definition parseArgString :: "jsstring \<Rightarrow> jsstring list" where
  "parseArgString argString = parseArgString_loop argString [] [] False"

text \<open>
  \<^verbatim>\<open>parseMessage\<close>.  The arguments object is a map from keys to values; an assignment
  to the key \<^verbatim>\<open>__proto__\<close> of a plain object stores nothing when the value is a string.
\<close>

record parsed_message =
  type :: jsstring
  args :: "jsstring \<rightharpoonup> jsstring"

definition assign :: "(jsstring \<rightharpoonup> jsstring) \<Rightarrow> jsstring \<Rightarrow> jsstring \<Rightarrow> (jsstring \<rightharpoonup> jsstring)" where
  "assign obj key v = (if key = js ''__proto__'' then obj else obj(key \<mapsto> v))"

fun parseMessage_args :: "jsstring list \<Rightarrow> (jsstring \<rightharpoonup> jsstring) \<Rightarrow> error + (jsstring \<rightharpoonup> jsstring)" where
  "parseMessage_args [] argsObj = Inr argsObj"
| "parseMessage_args (arg # pargs) argsObj =
     (let eqIndex = indexOf arg 0x3D 0 in
      if eqIndex = - 1 then parseMessage_args pargs argsObj
      else
        (let key = substring arg 0 eqIndex;
             v = substring_from arg (eqIndex + 1)
         in if key \<noteq> [] then
              (if startsWith v [0x22] then
                 (case JSON_parse_string v of
                    None \<Rightarrow> Inl ErrorParsingValue
                  | Some parsed \<Rightarrow> parseMessage_args pargs (assign argsObj key parsed))
               else parseMessage_args pargs (assign argsObj key v))
            else parseMessage_args pargs argsObj))"

definition parseMessage :: "jsstring \<Rightarrow> error + parsed_message" where
  "parseMessage msg =
     (if startsWith msg (js ''PING'') then
        Inr \<lparr>type = js ''PING'',
             args = [js ''REMAINDER'' \<mapsto> trim (substring_from msg 4)]\<rparr>
      else
        (let firstSpaceIndex = indexOf msg 0x20 0;
             secondSpaceIndex = indexOf msg 0x20 (firstSpaceIndex + 1);
             type = substring msg 0 secondSpaceIndex;
             remainingStr = substring_from msg (secondSpaceIndex + 1);
             pargs = parseArgString remainingStr
         in case parseMessage_args pargs Map.empty of
              Inl e \<Rightarrow> Inl e
            | Inr argsObj \<Rightarrow> Inr \<lparr>type = type, args = argsObj\<rparr>))"

lemma find_from_app:
  "c \<notin> set xs \<Longrightarrow> find_from c (xs @ c # ys) i = i + int (length xs)"
  by (induction xs arbitrary: i) auto

lemma indexOf_first:
  "c \<notin> set xs \<Longrightarrow> indexOf (xs @ c # ys) c 0 = int (length xs)"
  by (simp add: indexOf_def find_from_app)

lemma indexOf_second:
  assumes "c \<notin> set ys"
  shows "indexOf (xs @ c # ys @ c # zs) c (int (length xs) + 1) = int (length xs) + 1 + int (length ys)"
proof -
  have k: "nat (max 0 (int (length xs) + 1)) = length xs + 1" by simp
  have "drop (length xs + 1) (xs @ c # ys @ c # zs) = ys @ c # zs" by simp
  then show ?thesis
    unfolding indexOf_def Let_def k using find_from_app [OF assms, of zs "int (length xs + 1)"]
    by simp
qed

lemma substring_prefix: "substring (xs @ ys) 0 (int (length xs)) = xs"
proof -
  have a: "min (max (0::int) 0) (int (length (xs @ ys))) = 0" by simp
  have b: "min (max (int (length xs)) 0) (int (length (xs @ ys))) = int (length xs)" by simp
  show ?thesis unfolding substring_def Let_def a b by simp
qed

lemma substring_from_suffix: "substring_from (xs @ ys) (int (length xs)) = ys"
proof -
  have a: "min (max (int (length xs)) 0) (int (length (xs @ ys))) = int (length xs)" by simp
  have b: "min (max (int (length (xs @ ys))) 0) (int (length (xs @ ys))) = int (length (xs @ ys))"
    by simp
  show ?thesis unfolding substring_from_def substring_def Let_def a b by simp
qed

lemma loop_plain:
  "0x20 \<notin> set p \<Longrightarrow> 0x22 \<notin> set p \<Longrightarrow>
     parseArgString_loop (p @ rest) as cur inQ = parseArgString_loop rest as (cur @ p) inQ"
  by (induction p arbitrary: cur) auto

lemma loop_inquote:
  "0x22 \<notin> set q \<Longrightarrow>
     parseArgString_loop (q @ rest) as cur True = parseArgString_loop rest as (cur @ q) True"
  by (induction q arbitrary: cur) auto

lemma json_body_plain:
  "0x22 \<notin> set q \<Longrightarrow> 0x5C \<notin> set q \<Longrightarrow> \<forall>c\<in>set q. \<not> c < 0x20 \<Longrightarrow>
     json_string_body (q @ 0x22 # rest) acc = Some (acc @ q, rest)"
  by (induction q arbitrary: acc) auto

lemma not_PING:
  assumes "0x20 \<notin> set t1" "take 4 t1 \<noteq> js ''PING''"
  shows "\<not> startsWith (t1 @ 0x20 # rest) (js ''PING'')"
proof (cases "4 \<le> length t1")
  case True
  have "length (js ''PING'') = 4" by (simp add: js_def)
  then have "take (length (js ''PING'')) (t1 @ 0x20 # rest) = take 4 t1"
    using True by simp
  then show ?thesis using assms(2) unfolding startsWith_def by simp
next
  case False
  then obtain n where "4 - length t1 = Suc n"
    by (cases "4 - length t1") auto
  then have "(0x20 :: 16 word) \<in> set (take 4 (t1 @ 0x20 # rest))"
    by simp
  moreover have "(0x20 :: 16 word) \<notin> set (js ''PING'')" by (simp add: js_def)
  moreover have "length (js ''PING'') = 4" by (simp add: js_def)
  ultimately show ?thesis unfolding startsWith_def by metis
qed

lemma parseMessage_head:
  assumes "0x20 \<notin> set t1" "0x20 \<notin> set t2" "take 4 t1 \<noteq> js ''PING''"
  shows "parseMessage (t1 @ 0x20 # t2 @ 0x20 # rest) =
     (case parseMessage_args (parseArgString rest) Map.empty of
        Inl e \<Rightarrow> Inl e
      | Inr argsObj \<Rightarrow> Inr \<lparr>type = t1 @ 0x20 # t2, args = argsObj\<rparr>)"
proof -
  let ?msg = "t1 @ 0x20 # t2 @ 0x20 # rest"
  have f: "indexOf ?msg 0x20 0 = int (length t1)"
    using indexOf_first [OF assms(1)] by simp
  have s: "indexOf ?msg 0x20 (int (length t1) + 1) = int (length t1) + 1 + int (length t2)"
    using indexOf_second [OF assms(2)] by simp
  have ty: "substring ?msg 0 (int (length t1) + 1 + int (length t2)) = t1 @ 0x20 # t2"
    using substring_prefix [of "t1 @ 0x20 # t2" "0x20 # rest"] by (simp add: add.commute add.left_commute)
  have re: "substring_from ?msg (int (length t1) + 1 + int (length t2) + 1) = rest"
    using substring_from_suffix [of "t1 @ 0x20 # t2 @ [0x20]" rest] by (simp add: add.commute add.left_commute)
  show ?thesis
    unfolding parseMessage_def Let_def f s ty re
    using not_PING [OF assms(1,3)] by simp
qed

lemma arg_plain:
  assumes "key \<noteq> []" "0x3D \<notin> set key" "0x22 \<notin> set v"
  shows "parseMessage_args ((key @ 0x3D # v) # pargs) obj =
           parseMessage_args pargs (assign obj key v)"
proof -
  have i: "indexOf (key @ 0x3D # v) 0x3D 0 = int (length key)"
    using indexOf_first [OF assms(2)] by simp
  have k: "substring (key @ 0x3D # v) 0 (int (length key)) = key"
    by (rule substring_prefix)
  have vv: "substring_from (key @ 0x3D # v) (int (length key) + 1) = v"
    using substring_from_suffix [of "key @ [0x3D]" v] by (simp add: add.commute)
  have nq: "\<not> startsWith v [0x22]"
    using assms(3) by (cases v) (auto simp: startsWith_def)
  show ?thesis
    unfolding parseMessage_args.simps Let_def i k vv using assms(1) nq by simp
qed

lemma arg_quoted:
  assumes "key \<noteq> []" "0x3D \<notin> set key"
    and "0x22 \<notin> set q" "0x5C \<notin> set q" "\<forall>c\<in>set q. \<not> c < 0x20"
  shows "parseMessage_args ((key @ 0x3D # 0x22 # q @ [0x22]) # pargs) obj =
           parseMessage_args pargs (assign obj key q)"
proof -
  let ?v = "0x22 # q @ [0x22]"
  have i: "indexOf (key @ 0x3D # ?v) 0x3D 0 = int (length key)"
    using indexOf_first [OF assms(2)] by simp
  have k: "substring (key @ 0x3D # ?v) 0 (int (length key)) = key"
    by (rule substring_prefix)
  have vv: "substring_from (key @ 0x3D # ?v) (int (length key) + 1) = ?v"
    using substring_from_suffix [of "key @ [0x3D]" ?v] by (simp add: add.commute)
  have sq: "startsWith ?v [0x22]" by (simp add: startsWith_def)
  have jp: "JSON_parse_string ?v = Some q"
    using json_body_plain [OF assms(3,4,5), of "[]" "[]"] by (simp add: JSON_parse_string_def)
  show ?thesis
    unfolding parseMessage_args.simps Let_def i k vv using assms(1) sq jp by simp
qed

text \<open>
  A line of arguments.  An argument is a key, a flag that tells whether its value is
  written between double quotes, and the value; \<open>arg_text\<close> is how it is written and
  \<open>arg_ok\<close> says that the key is not empty and holds no \<open>=\<close>, space or quote, that a
  value written without quotes holds no space and no quote, and that a value written
  between quotes holds no quote, no backslash and no control character.
\<close>

definition arg_text :: "jsstring \<times> bool \<times> jsstring \<Rightarrow> jsstring" where
  "arg_text = (\<lambda>(key, quoted, v). key @ 0x3D # (if quoted then 0x22 # v @ [0x22] else v))"

definition arg_ok :: "jsstring \<times> bool \<times> jsstring \<Rightarrow> bool" where
  "arg_ok = (\<lambda>(key, quoted, v).
     key \<noteq> [] \<and> 0x3D \<notin> set key \<and> 0x20 \<notin> set key \<and> 0x22 \<notin> set key \<and>
     (if quoted then 0x22 \<notin> set v \<and> 0x5C \<notin> set v \<and> (\<forall>c\<in>set v. \<not> c < 0x20)
      else 0x20 \<notin> set v \<and> 0x22 \<notin> set v))"

lemma arg_text_not_empty: "arg_text a \<noteq> []"
  by (cases a) (simp add: arg_text_def)

lemma loop_arg:
  assumes "arg_ok a"
  shows "parseArgString_loop (arg_text a @ rest) as [] False =
           parseArgString_loop rest as (arg_text a) False"
proof -
  obtain key quoted v where a: "a = (key, quoted, v)" by (cases a)
  show ?thesis
  proof (cases quoted)
    case False
    with assms a have "0x20 \<notin> set (key @ 0x3D # v)" "0x22 \<notin> set (key @ 0x3D # v)"
      by (simp_all add: arg_ok_def)
    from loop_plain [OF this, of rest as "[]" False] show ?thesis
      using a False by (simp add: arg_text_def)
  next
    case True
    with assms a have k: "0x20 \<notin> set (key @ [0x3D])" "0x22 \<notin> set (key @ [0x3D])"
      and q: "0x22 \<notin> set v"
      by (simp_all add: arg_ok_def)
    have "parseArgString_loop ((key @ [0x3D]) @ 0x22 # v @ 0x22 # rest) as [] False
        = parseArgString_loop (0x22 # v @ 0x22 # rest) as (key @ [0x3D]) False"
      using loop_plain [OF k, of "0x22 # v @ 0x22 # rest" as "[]" False] by simp
    also have "\<dots> = parseArgString_loop (v @ 0x22 # rest) as (key @ [0x3D, 0x22]) True"
      by simp
    also have "\<dots> = parseArgString_loop (0x22 # rest) as (key @ [0x3D, 0x22] @ v) True"
      using loop_inquote [OF q, of "0x22 # rest" as "key @ [0x3D, 0x22]"] by simp
    also have "\<dots> = parseArgString_loop rest as (key @ [0x3D, 0x22] @ v @ [0x22]) False"
      by simp
    finally show ?thesis using a True by (simp add: arg_text_def)
  qed
qed

lemma loop_args:
  assumes "\<forall>a\<in>set kvs. arg_ok a" "cur \<noteq> []"
  shows "parseArgString_loop (concat (map (\<lambda>a. 0x20 # arg_text a) kvs)) as cur False =
           as @ cur # map arg_text kvs"
  using assms
proof (induction kvs arbitrary: as cur)
  case Nil
  then show ?case by simp
next
  case (Cons a kvs)
  let ?rest = "concat (map (\<lambda>a. 0x20 # arg_text a) kvs)"
  have "parseArgString_loop (0x20 # arg_text a @ ?rest) as cur False
      = parseArgString_loop (arg_text a @ ?rest) (as @ [cur]) [] False"
    using Cons.prems(2) by simp
  also have "\<dots> = parseArgString_loop ?rest (as @ [cur]) (arg_text a) False"
    using Cons.prems(1) by (simp add: loop_arg)
  also have "\<dots> = (as @ [cur]) @ arg_text a # map arg_text kvs"
    using Cons.prems(1) by (intro Cons.IH) (simp_all add: arg_text_not_empty)
  finally show ?case by simp
qed

lemma parseArgString_args:
  assumes "\<forall>a\<in>set (a # kvs). arg_ok a"
  shows "parseArgString (arg_text a @ concat (map (\<lambda>a. 0x20 # arg_text a) kvs)) =
           map arg_text (a # kvs)"
proof -
  have "parseArgString (arg_text a @ concat (map (\<lambda>a. 0x20 # arg_text a) kvs))
      = parseArgString_loop (concat (map (\<lambda>a. 0x20 # arg_text a) kvs)) [] (arg_text a) False"
    using assms by (simp add: parseArgString_def loop_arg)
  also have "\<dots> = [] @ arg_text a # map arg_text kvs"
    using assms by (intro loop_args) (simp_all add: arg_text_not_empty)
  finally show ?thesis by simp
qed

lemma parseMessage_args_fold:
  assumes "\<forall>a\<in>set kvs. arg_ok a"
  shows "parseMessage_args (map arg_text kvs) obj =
           Inr (foldl (\<lambda>obj (key, quoted, v). assign obj key v) obj kvs)"
  using assms
proof (induction kvs arbitrary: obj)
  case Nil
  then show ?case by simp
next
  case (Cons a kvs)
  obtain key quoted v where a: "a = (key, quoted, v)" by (cases a)
  from Cons.prems a have ok: "arg_ok (key, quoted, v)" by simp
  have "parseMessage_args (arg_text a # map arg_text kvs) obj =
      parseMessage_args (map arg_text kvs) (assign obj key v)"
  proof (cases quoted)
    case False
    then have t: "arg_text a = key @ 0x3D # v" by (simp add: a arg_text_def)
    from ok False show ?thesis
      unfolding t by (intro arg_plain) (simp_all add: arg_ok_def)
  next
    case True
    then have t: "arg_text a = key @ 0x3D # 0x22 # v @ [0x22]" by (simp add: a arg_text_def)
    from ok True show ?thesis
      unfolding t by (intro arg_quoted) (simp_all add: arg_ok_def)
  qed
  with Cons show ?case by (simp add: a)
qed

lemma parseMessage_arguments:
  assumes "0x20 \<notin> set t1" "0x20 \<notin> set t2" "take 4 t1 \<noteq> js ''PING''"
    and "kvs \<noteq> []" "\<forall>a\<in>set kvs. arg_ok a"
  shows "parseMessage (t1 @ 0x20 # t2 @ concat (map (\<lambda>a. 0x20 # arg_text a) kvs)) =
           Inr \<lparr>type = t1 @ 0x20 # t2,
                args = foldl (\<lambda>obj (key, quoted, v). assign obj key v) Map.empty kvs\<rparr>"
proof -
  obtain a as where kvs: "kvs = a # as" using assms(4) by (cases kvs) auto
  let ?rest = "arg_text a @ concat (map (\<lambda>a. 0x20 # arg_text a) as)"
  have p: "parseArgString ?rest = map arg_text kvs"
    unfolding kvs using assms(5) [unfolded kvs] by (rule parseArgString_args)
  have m: "t1 @ 0x20 # t2 @ concat (map (\<lambda>a. 0x20 # arg_text a) kvs) = t1 @ 0x20 # t2 @ 0x20 # ?rest"
    by (simp add: kvs)
  show ?thesis
    unfolding m parseMessage_head [OF assms(1,2,3)] p parseMessage_args_fold [OF assms(5)]
    by simp
qed


lemmas parseMessage_eval =
  parseMessage_def js_def startsWith_def indexOf_def substring_def substring_from_def
  parseArgString_def Let_def JSON_parse_string_def assign_def

text \<open>
  Claim C5 (arguments are split on spaces outside double quotes only, and each
  \<open>key=value\<close> on its first \<open>=\<close>): the reply of the specification, the same reply with
  its quoted argument first, a reply whose value ends in \<open>==\<close>, and the general
  statement for a reply of two type words and any number of arguments, each plain (the
  value may hold \<open>=\<close>) or quoted (the value may hold spaces and \<open>=\<close>, and loses its
  quotes): every argument is assigned, in order, its key and its value.
\<close>

theorem parseMessage_quotes_and_equals:
  "parseMessage (js ''SESSION STATUS RESULT=I2P_ERROR MESSAGE=\"Unknown STYLE\"'') =
     Inr \<lparr>type = js ''SESSION STATUS'',
          args = [js ''RESULT'' \<mapsto> js ''I2P_ERROR'', js ''MESSAGE'' \<mapsto> js ''Unknown STYLE'']\<rparr>
   \<and> parseMessage (js ''SESSION STATUS MESSAGE=\"Unknown STYLE\" RESULT=I2P_ERROR'') =
     Inr \<lparr>type = js ''SESSION STATUS'',
          args = [js ''MESSAGE'' \<mapsto> js ''Unknown STYLE'', js ''RESULT'' \<mapsto> js ''I2P_ERROR'']\<rparr>
   \<and> parseMessage (js ''DEST REPLY PUB=i6yd5yZkCYaOIlKlBQAEAAcAAA== PRIV=XXXXXXXXXXXXXXXX'') =
     Inr \<lparr>type = js ''DEST REPLY'',
          args = [js ''PUB'' \<mapsto> js ''i6yd5yZkCYaOIlKlBQAEAAcAAA=='',
                  js ''PRIV'' \<mapsto> js ''XXXXXXXXXXXXXXXX'']\<rparr>
   \<and> (\<forall>t1 t2 kvs.
        0x20 \<notin> set t1 \<and> 0x20 \<notin> set t2 \<and> take 4 t1 \<noteq> js ''PING'' \<and>
        kvs \<noteq> [] \<and> (\<forall>a\<in>set kvs. arg_ok a) \<longrightarrow>
        parseMessage (t1 @ 0x20 # t2 @ concat (map (\<lambda>a. 0x20 # arg_text a) kvs)) =
          Inr \<lparr>type = t1 @ 0x20 # t2,
               args = foldl (\<lambda>obj (key, quoted, v). assign obj key v) Map.empty kvs\<rparr>)"
proof (intro conjI allI impI)
  show "parseMessage (js ''SESSION STATUS RESULT=I2P_ERROR MESSAGE=\"Unknown STYLE\"'') =
     Inr \<lparr>type = js ''SESSION STATUS'',
          args = [js ''RESULT'' \<mapsto> js ''I2P_ERROR'', js ''MESSAGE'' \<mapsto> js ''Unknown STYLE'']\<rparr>"
    by (simp add: parseMessage_eval)
next
  show "parseMessage (js ''SESSION STATUS MESSAGE=\"Unknown STYLE\" RESULT=I2P_ERROR'') =
     Inr \<lparr>type = js ''SESSION STATUS'',
          args = [js ''MESSAGE'' \<mapsto> js ''Unknown STYLE'', js ''RESULT'' \<mapsto> js ''I2P_ERROR'']\<rparr>"
    by (simp add: parseMessage_eval)
next
  show "parseMessage (js ''DEST REPLY PUB=i6yd5yZkCYaOIlKlBQAEAAcAAA== PRIV=XXXXXXXXXXXXXXXX'') =
     Inr \<lparr>type = js ''DEST REPLY'',
          args = [js ''PUB'' \<mapsto> js ''i6yd5yZkCYaOIlKlBQAEAAcAAA=='',
                  js ''PRIV'' \<mapsto> js ''XXXXXXXXXXXXXXXX'']\<rparr>"
    by (simp add: parseMessage_eval)
next
  fix t1 t2 :: jsstring and kvs :: "(jsstring \<times> bool \<times> jsstring) list"
  assume "0x20 \<notin> set t1 \<and> 0x20 \<notin> set t2 \<and> take 4 t1 \<noteq> js ''PING'' \<and>
        kvs \<noteq> [] \<and> (\<forall>a\<in>set kvs. arg_ok a)"
  then show "parseMessage (t1 @ 0x20 # t2 @ concat (map (\<lambda>a. 0x20 # arg_text a) kvs)) =
          Inr \<lparr>type = t1 @ 0x20 # t2,
               args = foldl (\<lambda>obj (key, quoted, v). assign obj key v) Map.empty kvs\<rparr>"
    by (intro parseMessage_arguments) simp_all
qed

theorem parseMessage_quotes_and_equals_witness:
  "parseMessage (js ''STREAM STATUS MESSAGE=\"a=b c\" RESULT=OK ID=ab=='') =
     Inr \<lparr>type = js ''STREAM STATUS'',
          args = [js ''MESSAGE'' \<mapsto> js ''a=b c'', js ''RESULT'' \<mapsto> js ''OK'',
                  js ''ID'' \<mapsto> js ''ab=='']\<rparr>"
proof -
  let ?kvs = "[(js ''MESSAGE'', True, js ''a=b c''), (js ''RESULT'', False, js ''OK''),
               (js ''ID'', False, js ''ab=='')]"
  have h: "0x20 \<notin> set (js ''STREAM'') \<and> 0x20 \<notin> set (js ''STATUS'')
      \<and> take 4 (js ''STREAM'') \<noteq> js ''PING'' \<and> ?kvs \<noteq> [] \<and> (\<forall>a\<in>set ?kvs. arg_ok a)"
    by (simp add: js_def arg_ok_def)
  from parseMessage_quotes_and_equals [THEN conjunct2, THEN conjunct2, THEN conjunct2,
      rule_format, OF h]
  show ?thesis by (simp add: js_def arg_text_def assign_def)
qed

section \<open>Destination strings: the I2P Base64 alphabet\<close>

text \<open>
  \<^verbatim>\<open>buf.toString("base64")\<close>: three bytes give four characters of the standard
  alphabet, and a last group of one or two bytes is padded with \<open>=\<close>.
\<close>

definition b64_char :: "nat \<Rightarrow> 16 word" where
  "b64_char n =
     (if n < 26 then word_of_nat (65 + n)
      else if n < 52 then word_of_nat (71 + n)
      else if n < 62 then word_of_nat (n - 4)
      else if n = 62 then 0x2B
      else 0x2F)"

fun base64_encode :: "buffer \<Rightarrow> jsstring" where
  "base64_encode [] = []"
| "base64_encode [a] =
     [b64_char (unat a div 4), b64_char (unat a mod 4 * 16), 0x3D, 0x3D]"
| "base64_encode [a, b] =
     [b64_char (unat a div 4), b64_char (unat a mod 4 * 16 + unat b div 16),
      b64_char (unat b mod 16 * 4), 0x3D]"
| "base64_encode (a # b # c # rest) =
     [b64_char (unat a div 4), b64_char (unat a mod 4 * 16 + unat b div 16),
      b64_char (unat b mod 16 * 4 + unat c div 64), b64_char (unat c mod 64)]
     @ base64_encode rest"

text \<open>
  \<^verbatim>\<open>Buffer.from(s, "base64")\<close>: the decoder reads the low byte of each code unit;
  decoding stops at the first \<open>=\<close>, a character outside the alphabet is skipped, the
  URL-safe characters \<open>-\<close> and \<open>_\<close> stand for 62 and 63, and a last group of two or three
  characters gives one or two bytes.
\<close>

definition unbase64 :: "16 word \<Rightarrow> nat option" where
  "unbase64 c =
     (if 0x41 \<le> c \<and> c \<le> 0x5A then Some (unat c - 65)
      else if 0x61 \<le> c \<and> c \<le> 0x7A then Some (unat c - 71)
      else if 0x30 \<le> c \<and> c \<le> 0x39 then Some (unat c + 4)
      else if c = 0x2B \<or> c = 0x2D then Some 62
      else if c = 0x2F \<or> c = 0x5F then Some 63
      else None)"

fun decode_sextets :: "nat list \<Rightarrow> buffer" where
  "decode_sextets (a # b # c # d # rest) =
     [word_of_nat (a * 4 + b div 16), word_of_nat (b mod 16 * 16 + c div 4),
      word_of_nat (c mod 4 * 64 + d)] @ decode_sextets rest"
| "decode_sextets [a, b, c] =
     [word_of_nat (a * 4 + b div 16), word_of_nat (b mod 16 * 16 + c div 4)]"
| "decode_sextets [a, b] = [word_of_nat (a * 4 + b div 16)]"
| "decode_sextets [a] = []"
| "decode_sextets [] = []"

definition base64_sextets :: "jsstring \<Rightarrow> nat list" where
  "base64_sextets s =
     List.map_filter unbase64 (takeWhile (\<lambda>c. c \<noteq> 0x3D) (map (\<lambda>c. c AND 0xFF) s))"

definition base64_decode :: "jsstring \<Rightarrow> buffer" where
  "base64_decode s = decode_sextets (base64_sextets s)"

text \<open>
  \<^verbatim>\<open>bufferDestinationToString\<close> and \<^verbatim>\<open>stringDestinationToBuffer\<close>:
  \<^verbatim>\<open>replaceAll\<close> with one-character arguments.
\<close>

definition replaceAll :: "16 word \<Rightarrow> 16 word \<Rightarrow> jsstring \<Rightarrow> jsstring" where
  "replaceAll x y s = map (\<lambda>c. if c = x then y else c) s"

definition bufferDestinationToString :: "buffer \<Rightarrow> jsstring" where
  "bufferDestinationToString buffer =
     replaceAll 0x2F 0x7E (replaceAll 0x2B 0x2D (base64_encode buffer))"

definition stringDestinationToBuffer :: "jsstring \<Rightarrow> buffer" where
  "stringDestinationToBuffer string =
     base64_decode (replaceAll 0x7E 0x2F (replaceAll 0x2D 0x2B string))"


lemma u16: "k < 65536 \<Longrightarrow> unat (word_of_nat k :: 16 word) = k"
  by (simp add: unat_of_nat)

lemma unbase64_b64_char:
  assumes "n < 64"
  shows "unbase64 (b64_char n) = Some n"
proof -
  consider "n < 26" | "26 \<le> n" "n < 52" | "52 \<le> n" "n < 62" | "n = 62" | "n = 63"
    using assms by linarith
  then show ?thesis
  proof cases
    case 1
    then have "unat (b64_char n) = 65 + n"
      using u16 [of "65 + n"] by (simp add: b64_char_def del: of_nat_add of_nat_diff)
    with 1 show ?thesis by (simp add: unbase64_def word_le_nat_alt)
  next
    case 2
    then have "unat (b64_char n) = 71 + n"
      using u16 [of "71 + n"] by (simp add: b64_char_def del: of_nat_add of_nat_diff)
    with 2 show ?thesis by (simp add: unbase64_def word_le_nat_alt)
  next
    case 3
    then have "unat (b64_char n) = n - 4"
      using u16 [of "n - 4"] by (simp add: b64_char_def del: of_nat_add of_nat_diff)
    moreover have "48 \<le> n - 4" "n - 4 \<le> 57" "\<not> n - 4 \<le> 90 \<or> \<not> 65 \<le> n - 4"
      "\<not> (97 \<le> n - 4 \<and> n - 4 \<le> 122)" "n - 4 + 4 = n"
      using 3 by arith+
    ultimately show ?thesis by (simp add: unbase64_def word_le_nat_alt)
  next
    case 4
    then show ?thesis by (simp add: unbase64_def b64_char_def)
  next
    case 5
    then show ?thesis by (simp add: unbase64_def b64_char_def)
  qed
qed

lemma b64_char_not_pad: "n < 64 \<Longrightarrow> b64_char n \<noteq> 0x3D"
  using unbase64_b64_char [of n] by (auto simp: unbase64_def)


lemma sextet_bounds:
  fixes x y :: nat
  assumes "x < 256" "y < 256"
  shows "x div 4 < 64" "x mod 4 * 16 + y div 16 < 64" "x mod 16 * 4 + y div 64 < 64"
    "x mod 64 < 64" "x mod 4 * 16 < 64" "x mod 16 * 4 < 64"
proof -
  have a: "x mod 4 < 4" "x mod 16 < 16" "y div 16 < 16" "y div 64 < 4"
    using assms by simp_all
  show "x div 4 < 64" using assms by simp
  show "x mod 4 * 16 + y div 16 < 64" using a by linarith
  show "x mod 16 * 4 + y div 64 < 64" using a by linarith
  show "x mod 64 < 64" by simp
  show "x mod 4 * 16 < 64" using a by linarith
  show "x mod 16 * 4 < 64" using a by linarith
qed

lemma sextet_join:
  fixes x y z :: nat
  assumes "x < 256" "y < 256" "z < 256"
  shows "x div 4 * 4 + (x mod 4 * 16 + y div 16) div 16 = x"
    and "(x mod 4 * 16 + y div 16) mod 16 * 16 + (y mod 16 * 4 + z div 64) div 4 = y"
    and "(y mod 16 * 4 + z div 64) mod 4 * 64 + z mod 64 = z"
    and "x div 4 * 4 + (x mod 4 * 16) div 16 = x"
    and "(x mod 4 * 16 + y div 16) mod 16 * 16 + (y mod 16 * 4) div 4 = y"
proof -
  have a: "y div 16 < 16" "z div 64 < 4"
    using assms by simp_all
  have d1: "(x mod 4 * 16 + y div 16) div 16 = x mod 4" using a by simp
  have m1: "(x mod 4 * 16 + y div 16) mod 16 = y div 16" using a by simp
  have d2: "(y mod 16 * 4 + z div 64) div 4 = y mod 16" using a by simp
  have m2: "(y mod 16 * 4 + z div 64) mod 4 = z div 64" using a by simp
  show "x div 4 * 4 + (x mod 4 * 16 + y div 16) div 16 = x" unfolding d1 by simp
  show "(x mod 4 * 16 + y div 16) mod 16 * 16 + (y mod 16 * 4 + z div 64) div 4 = y"
    unfolding m1 d2 by simp
  show "(y mod 16 * 4 + z div 64) mod 4 * 64 + z mod 64 = z" unfolding m2 by simp
  show "x div 4 * 4 + (x mod 4 * 16) div 16 = x" by simp
  show "(x mod 4 * 16 + y div 16) mod 16 * 16 + (y mod 16 * 4) div 4 = y"
    unfolding m1 by simp
qed

lemma byte_lt: "unat (b :: byte) < 256"
  using unsigned_less [of b, where ?'a = nat] by simp

lemma decode_group:
  fixes a b c :: byte
  shows "word_of_nat (unat a div 4 * 4 + (unat a mod 4 * 16 + unat b div 16) div 16) = a"
    and "word_of_nat ((unat a mod 4 * 16 + unat b div 16) mod 16 * 16
           + (unat b mod 16 * 4 + unat c div 64) div 4) = b"
    and "word_of_nat ((unat b mod 16 * 4 + unat c div 64) mod 4 * 64 + unat c mod 64) = c"
    and "word_of_nat (unat a div 4 * 4 + (unat a mod 4 * 16) div 16) = a"
    and "word_of_nat ((unat a mod 4 * 16 + unat b div 16) mod 16 * 16
           + (unat b mod 16 * 4) div 4) = b"
  by (simp_all only: sextet_join [OF byte_lt [of a] byte_lt [of b] byte_lt [of c]] of_nat_unat ucast_id)


lemma low_byte_id:
  fixes w :: "16 word"
  assumes "unat w < 256"
  shows "w AND 0xFF = w"
proof -
  have "w < 2 ^ 8" using assms by (simp add: word_less_nat_alt)
  then have "w AND mask 8 = w" by (rule less_mask_eq)
  then show ?thesis by (simp add: mask_eq_exp_minus_1)
qed

lemma unbase64_low_byte: "unbase64 c = Some n \<Longrightarrow> unat c < 256"
  by (auto simp: unbase64_def word_le_nat_alt split: if_splits)

lemma b64_char_low_byte: "n < 64 \<Longrightarrow> b64_char n AND 0xFF = b64_char n"
  by (intro low_byte_id unbase64_low_byte [of _ n] unbase64_b64_char)

lemma base64_sextets_simps:
  "base64_sextets [] = []"
  "base64_sextets (0x3D # s) = []"
  "n < 64 \<Longrightarrow> base64_sextets (b64_char n # s) = n # base64_sextets s"
  by (simp_all add: base64_sextets_def map_filter_simps unbase64_b64_char b64_char_not_pad
      b64_char_low_byte)

lemma base64_roundtrip: "base64_decode (base64_encode bs) = bs"
proof (induction bs rule: base64_encode.induct)
  case 1
  show ?case by (simp add: base64_decode_def base64_sextets_simps)
next
  case (2 a)
  note sb = sextet_bounds [OF byte_lt [of a] byte_lt [of a]]
  have "base64_sextets (base64_encode [a]) = [unat a div 4, unat a mod 4 * 16]"
    by (simp only: base64_encode.simps base64_sextets_simps sb)
  then show ?case
    by (simp only: base64_decode_def decode_sextets.simps decode_group)
next
  case (3 a b)
  note sb = sextet_bounds [OF byte_lt [of a] byte_lt [of b]] sextet_bounds [OF byte_lt [of b] byte_lt [of b]]
  have "base64_sextets (base64_encode [a, b]) =
      [unat a div 4, unat a mod 4 * 16 + unat b div 16, unat b mod 16 * 4]"
    by (simp only: base64_encode.simps base64_sextets_simps sb)
  then show ?case
    by (simp only: base64_decode_def decode_sextets.simps decode_group)
next
  case (4 a b c rest)
  note sb = sextet_bounds [OF byte_lt [of a] byte_lt [of b]] sextet_bounds [OF byte_lt [of b] byte_lt [of c]]
    sextet_bounds [OF byte_lt [of c] byte_lt [of c]]
  have "base64_sextets (base64_encode (a # b # c # rest)) =
      unat a div 4 # (unat a mod 4 * 16 + unat b div 16) # (unat b mod 16 * 4 + unat c div 64)
        # unat c mod 64 # base64_sextets (base64_encode rest)"
    by (simp only: base64_encode.simps base64_sextets_simps sb append.simps)
  then have "base64_decode (base64_encode (a # b # c # rest)) =
      [a, b, c] @ base64_decode (base64_encode rest)"
    by (simp only: base64_decode_def decode_sextets.simps decode_group)
  then show ?case using 4 by simp
qed

lemma unat_b64_char_range:
  assumes "n < 64"
  shows "b64_char n \<noteq> 0x2D" "b64_char n \<noteq> 0x7E"
proof -
  have "unbase64 (b64_char n) = Some n" by (rule unbase64_b64_char [OF assms])
  moreover have "unbase64 0x7E = None" by (simp add: unbase64_def)
  ultimately show "b64_char n \<noteq> 0x7E" by auto
  show "b64_char n \<noteq> 0x2D"
  proof
    assume e: "b64_char n = 0x2D"
    then have "unbase64 (b64_char n) = Some 62" by (simp add: unbase64_def)
    then have "n = 62" using unbase64_b64_char [OF assms] by simp
    then show False using e by (simp add: b64_char_def)
  qed
qed

lemma base64_encode_alphabet: "0x2D \<notin> set (base64_encode bs) \<and> 0x7E \<notin> set (base64_encode bs)"
proof (induction bs rule: base64_encode.induct)
  case 1
  show ?case by simp
next
  case (2 a)
  note sb = sextet_bounds [OF byte_lt [of a] byte_lt [of a]]
  show ?case using unat_b64_char_range sb by simp
next
  case (3 a b)
  note sb = sextet_bounds [OF byte_lt [of a] byte_lt [of b]] sextet_bounds [OF byte_lt [of b] byte_lt [of b]]
  show ?case using unat_b64_char_range sb by simp
next
  case (4 a b c rest)
  note sb = sextet_bounds [OF byte_lt [of a] byte_lt [of b]] sextet_bounds [OF byte_lt [of b] byte_lt [of c]]
    sextet_bounds [OF byte_lt [of c] byte_lt [of c]]
  show ?case using 4 unat_b64_char_range sb by simp
qed

lemma replaceAll_inverse:
  "y \<notin> set s \<Longrightarrow> replaceAll y x (replaceAll x y s) = s"
  by (induction s) (auto simp: replaceAll_def)

lemma replaceAll_notin:
  "z \<notin> set s \<Longrightarrow> z \<noteq> y \<Longrightarrow> z \<notin> set (replaceAll x y s)"
  by (induction s) (auto simp: replaceAll_def)

lemma replaceAll_absent: "x \<notin> set s \<Longrightarrow> replaceAll x y s = s"
  by (induction s) (auto simp: replaceAll_def)

lemma replaceAll_commute:
  "x \<noteq> x' \<Longrightarrow> x \<noteq> y' \<Longrightarrow> x' \<noteq> y \<Longrightarrow>
     replaceAll x y (replaceAll x' y' s) = replaceAll x' y' (replaceAll x y s)"
  by (induction s) (auto simp: replaceAll_def)

lemma destination_string_roundtrip:
  "stringDestinationToBuffer (bufferDestinationToString bs) = bs"
proof -
  let ?e = "base64_encode bs"
  have a: "0x2D \<notin> set ?e" "0x7E \<notin> set ?e" using base64_encode_alphabet [of bs] by simp_all
  have "replaceAll 0x7E 0x2F (replaceAll 0x2D 0x2B (replaceAll 0x2F 0x7E (replaceAll 0x2B 0x2D ?e)))
      = replaceAll 0x7E 0x2F (replaceAll 0x2F 0x7E (replaceAll 0x2D 0x2B (replaceAll 0x2B 0x2D ?e)))"
    by (simp add: replaceAll_commute)
  also have "\<dots> = replaceAll 0x7E 0x2F (replaceAll 0x2F 0x7E ?e)"
    using a by (simp add: replaceAll_inverse)
  also have "\<dots> = ?e"
    using a by (simp add: replaceAll_inverse)
  finally show ?thesis
    by (simp add: stringDestinationToBuffer_def bufferDestinationToString_def base64_roundtrip)
qed

section \<open>Destination codec\<close>

text \<open>
  \<^verbatim>\<open>subarray\<close> with arbitrary integer indices: a negative index counts from the end.
\<close>

definition subarray_int :: "'a list \<Rightarrow> int \<Rightarrow> int \<Rightarrow> 'a list" where
  "subarray_int xs start finish =
     (let len = int (length xs);
          rel = (\<lambda>i. if i < 0 then max (len + i) 0 else min i len);
          s = rel start;
          e = rel finish
      in take (nat (e - s)) (drop (nat s) xs))"

text \<open>The enumerations and length tables of the source.  A lookup of a code that a
  table does not hold is \<^verbatim>\<open>undefined\<close> (\<open>None\<close>).\<close>

abbreviation (input) CERT_NULL :: nat where "CERT_NULL \<equiv> 0"
abbreviation (input) CERT_KEY :: nat where "CERT_KEY \<equiv> 5"

abbreviation (input) DSA_SHA1 :: nat where "DSA_SHA1 \<equiv> 0"
abbreviation (input) ECDSA_SHA256_P256 :: nat where "ECDSA_SHA256_P256 \<equiv> 1"
abbreviation (input) ECDSA_SHA384_P384 :: nat where "ECDSA_SHA384_P384 \<equiv> 2"
abbreviation (input) ECDSA_SHA512_P521 :: nat where "ECDSA_SHA512_P521 \<equiv> 3"
abbreviation (input) EdDSA_SHA512_Ed25519 :: nat where "EdDSA_SHA512_Ed25519 \<equiv> 7"
abbreviation (input) RedDSA_SHA512_Ed25519 :: nat where "RedDSA_SHA512_Ed25519 \<equiv> 11"

definition SIGNING_PUBLIC_KEY_LENGTHS :: "nat \<Rightarrow> nat option" where
  "SIGNING_PUBLIC_KEY_LENGTHS =
     map_of [(0, 128), (1, 64), (2, 96), (3, 132), (4, 256), (5, 384), (6, 512), (7, 32),
             (8, 32), (11, 32)]"

definition SIGNATURE_LENGTHS :: "nat \<Rightarrow> nat option" where
  "SIGNATURE_LENGTHS =
     map_of [(0, 40), (1, 64), (2, 96), (3, 132), (4, 256), (5, 384), (6, 512), (7, 64),
             (8, 64), (11, 64)]"

definition CRYPTO_PUBLIC_KEY_LENGTHS :: "nat \<Rightarrow> nat option" where
  "CRYPTO_PUBLIC_KEY_LENGTHS = map_of [(0, 256), (1, 64), (2, 96), (3, 132), (4, 32)]"

definition PARTIAL_CRYPTO_MAX :: int where "PARTIAL_CRYPTO_MAX = 256"
definition PARTIAL_SIGNIN_MAX :: int where "PARTIAL_SIGNIN_MAX = 128"
definition PUB_PADD_SIGN_LEN :: int where "PUB_PADD_SIGN_LEN = PARTIAL_CRYPTO_MAX + PARTIAL_SIGNIN_MAX"
definition CERT_TYPE_LOC :: nat where "CERT_TYPE_LOC = 384"
definition SIGN_TYPE_LOC :: nat where "SIGN_TYPE_LOC = 387"
definition CRYPT_TYPE_LOC :: nat where "CRYPT_TYPE_LOC = 389"
definition SIGN_REMAI_LOC :: int where "SIGN_REMAI_LOC = 391"

lemmas Destination_consts =
  PARTIAL_CRYPTO_MAX_def PARTIAL_SIGNIN_MAX_def PUB_PADD_SIGN_LEN_def CERT_TYPE_LOC_def
  SIGN_TYPE_LOC_def CRYPT_TYPE_LOC_def SIGN_REMAI_LOC_def

text \<open>
  The class \<^verbatim>\<open>Destination\<close>.  The two keys are kept as bytes (the source keeps their
  hexadecimal rendering).  \<^verbatim>\<open>byteLength\<close> is \<open>None\<close> when the source computes NaN.
\<close>

record Destination =
  byteLength :: "nat option"
  str :: jsstring
  certType :: nat
  cryptoPublicKey :: buffer
  publicSigningKey :: buffer
  signingPublicKeyType :: nat
  cryptoPublicKeyType :: nat

text \<open>
  The constructor, after the two key lengths are looked up.  When both are known the
  arithmetic is on integers.  When the crypto key type is not in its table the length
  is \<^verbatim>\<open>undefined\<close> and every number computed from it is NaN: \<^verbatim>\<open>subarray\<close> reads a NaN
  index as 0, so the signing key is cut from offset 0, the crypto key and the string
  come from empty slices, and \<^verbatim>\<open>byteLength\<close> is NaN.  When the signing key type is not
  in its table the length test compares a number with \<^verbatim>\<open>undefined\<close> and always throws.
\<close>

definition new_Destination_known ::
  "buffer \<Rightarrow> nat \<Rightarrow> nat \<Rightarrow> nat \<Rightarrow> nat \<Rightarrow> nat \<Rightarrow> error + Destination" where
  "new_Destination_known dest certType' signingPublicKeyType' cryptoPublicKeyType'
       cryptoPublicKeyLength signingPublicKeyLength =
     (let signingRemainder = int signingPublicKeyLength - PARTIAL_SIGNIN_MAX;
          publicKeyRemainder = int cryptoPublicKeyLength - PARTIAL_CRYPTO_MAX;
          padding = max 0 (int CERT_TYPE_LOC - int cryptoPublicKeyLength - int signingPublicKeyLength);
          publicSigningStartLoc = min (int cryptoPublicKeyLength) PARTIAL_CRYPTO_MAX + padding;
          publicSigningBuffer =
            subarray_int dest publicSigningStartLoc (int CERT_TYPE_LOC)
            @ subarray_int dest SIGN_REMAI_LOC (SIGN_REMAI_LOC + signingRemainder)
      in if length publicSigningBuffer \<noteq> signingPublicKeyLength then Inl BareError
         else
           (let cryptoPublicKey' =
                  subarray_int dest 0 (max PARTIAL_CRYPTO_MAX (int cryptoPublicKeyLength))
                  @ subarray_int dest (PUB_PADD_SIGN_LEN + signingRemainder)
                      (PUB_PADD_SIGN_LEN + signingRemainder + publicKeyRemainder);
                byteLength0 = int cryptoPublicKeyLength + padding + int signingPublicKeyLength + 3;
                byteLength' = (if certType' = CERT_KEY then byteLength0 + 4 else byteLength0)
            in Inr \<lparr>byteLength = Some (nat byteLength'),
                    str = bufferDestinationToString (subarray_int dest 0 byteLength'),
                    certType = certType',
                    cryptoPublicKey = cryptoPublicKey',
                    publicSigningKey = publicSigningBuffer,
                    signingPublicKeyType = signingPublicKeyType',
                    cryptoPublicKeyType = cryptoPublicKeyType'\<rparr>))"

definition new_Destination_NaN ::
  "buffer \<Rightarrow> nat \<Rightarrow> nat \<Rightarrow> nat \<Rightarrow> nat \<Rightarrow> error + Destination" where
  "new_Destination_NaN dest certType' signingPublicKeyType' cryptoPublicKeyType'
       signingPublicKeyLength =
     (let signingRemainder = int signingPublicKeyLength - PARTIAL_SIGNIN_MAX;
          publicSigningBuffer =
            subarray_int dest 0 (int CERT_TYPE_LOC)
            @ subarray_int dest SIGN_REMAI_LOC (SIGN_REMAI_LOC + signingRemainder)
      in if length publicSigningBuffer \<noteq> signingPublicKeyLength then Inl BareError
         else
           Inr \<lparr>byteLength = None,
                str = bufferDestinationToString (subarray_int dest 0 0),
                certType = certType',
                cryptoPublicKey = subarray_int dest 0 0
                  @ subarray_int dest (PUB_PADD_SIGN_LEN + signingRemainder) 0,
                publicSigningKey = publicSigningBuffer,
                signingPublicKeyType = signingPublicKeyType',
                cryptoPublicKeyType = cryptoPublicKeyType'\<rparr>)"

definition new_Destination :: "buffer \<Rightarrow> error + Destination" where
  "new_Destination dest =
     (if length dest < 387 then Inl TooFewBytes
      else
        (let certType' = unat (dest ! CERT_TYPE_LOC) in
         case (if CERT_KEY = certType' then readUIntBE dest SIGN_TYPE_LOC 2 else Inr 0) of
           Inl e \<Rightarrow> Inl e
         | Inr signingPublicKeyType' \<Rightarrow>
             (case (if CERT_KEY = certType' then readUIntBE dest CRYPT_TYPE_LOC 2 else Inr 0) of
                Inl e \<Rightarrow> Inl e
              | Inr cryptoPublicKeyType' \<Rightarrow>
                  (case SIGNING_PUBLIC_KEY_LENGTHS signingPublicKeyType' of
                     None \<Rightarrow> Inl BareError
                   | Some signingPublicKeyLength \<Rightarrow>
                       (case CRYPTO_PUBLIC_KEY_LENGTHS cryptoPublicKeyType' of
                          None \<Rightarrow>
                            new_Destination_NaN dest certType' signingPublicKeyType'
                              cryptoPublicKeyType' signingPublicKeyLength
                        | Some cryptoPublicKeyLength \<Rightarrow>
                            new_Destination_known dest certType' signingPublicKeyType'
                              cryptoPublicKeyType' cryptoPublicKeyLength
                              signingPublicKeyLength)))))"

text \<open>The getters \<^verbatim>\<open>string\<close>, \<^verbatim>\<open>buffer\<close>, \<^verbatim>\<open>hashBuffer\<close> and \<^verbatim>\<open>signatureByteLength\<close>;
  SHA-256 is the library's, a parameter here.\<close>

definition Destination_string :: "'a Destination_scheme \<Rightarrow> jsstring" where
  "Destination_string d = str d"

definition Destination_buffer :: "'a Destination_scheme \<Rightarrow> buffer" where
  "Destination_buffer d = stringDestinationToBuffer (str d)"

definition hashBuffer :: "(buffer \<Rightarrow> buffer) \<Rightarrow> 'a Destination_scheme \<Rightarrow> buffer" where
  "hashBuffer sha256 d = sha256 (Destination_buffer d)"

definition signatureByteLength :: "'a Destination_scheme \<Rightarrow> nat option" where
  "signatureByteLength d = SIGNATURE_LENGTHS (signingPublicKeyType d)"

text \<open>
  \<^verbatim>\<open>LocalDestination\<close> and \<^verbatim>\<open>generateLocalDestination\<close>.  The signing type is optional
  (\<open>None\<close>: the caller passed none).  \<open>keyPair t\<close> is the key pair that the generator
  \<^verbatim>\<open>keyPairMap[t]\<close> draws, as (private, public); the map has entries for six types
  only, and calling a missing entry is a TypeError.  \<open>cryptoPublicKey'\<close> is the result
  of \<^verbatim>\<open>randomBytes(256)\<close>.  The function returns the destination and the two keys.
\<close>

record LocalDestination = Destination +
  privateSigningKey :: buffer

definition new_LocalDestination :: "buffer \<Rightarrow> buffer \<Rightarrow> error + LocalDestination" where
  "new_LocalDestination dest privateSigningKey' =
     (case new_Destination dest of
        Inl e \<Rightarrow> Inl e
      | Inr d \<Rightarrow> Inr (Destination.extend d (LocalDestination.fields privateSigningKey')))"

definition generateLocalDestination ::
  "nat option \<Rightarrow> (nat \<Rightarrow> buffer \<times> buffer) \<Rightarrow> buffer \<Rightarrow>
     error + (LocalDestination \<times> buffer \<times> buffer)" where
  "generateLocalDestination signingTypeArg keyPair cryptoPublicKey' =
     (let signingType = (case signingTypeArg of None \<Rightarrow> DSA_SHA1 | Some t \<Rightarrow> t) in
      if signingType \<notin> set [DSA_SHA1, EdDSA_SHA512_Ed25519, RedDSA_SHA512_Ed25519,
            ECDSA_SHA256_P256, ECDSA_SHA384_P384, ECDSA_SHA512_P521]
      then Inl NotAFunction
      else
        (let (privateSigningKey', publicSigningKey') = keyPair signingType in
         if Some (length publicSigningKey') \<noteq> SIGNING_PUBLIC_KEY_LENGTHS signingType
         then Inl BareError
         else
           (let cryptoPartialLength = min PARTIAL_CRYPTO_MAX (int (length cryptoPublicKey'));
                signingPartialLength = min PARTIAL_SIGNIN_MAX (int (length publicSigningKey'));
                cryptoRemainder = drop (nat PARTIAL_CRYPTO_MAX) cryptoPublicKey';
                signingRemainder = drop (nat PARTIAL_SIGNIN_MAX) publicSigningKey';
                padding = int CERT_TYPE_LOC - cryptoPartialLength - signingPartialLength;
                certType' = (if DSA_SHA1 = signingType then CERT_NULL else CERT_KEY);
                isKey = (certType' = CERT_KEY);
                certTypeBuffer = [word_of_nat certType' :: byte];
                certInfoBuffer =
                  (if isKey then nat_to_be 2 signingType @ nat_to_be 2 0 else [])
            in case writeUIntBE 2
                      (if isKey then length cryptoRemainder + length signingRemainder + 4 else 0) of
                 Inl e \<Rightarrow> Inl e
               | Inr certLengthBuffer \<Rightarrow>
                   (let destBuffer =
                          concat [subarray_int cryptoPublicKey' 0 PARTIAL_CRYPTO_MAX,
                                  replicate (nat padding) 0,
                                  subarray_int publicSigningKey' 0 PARTIAL_SIGNIN_MAX,
                                  certTypeBuffer, certLengthBuffer, certInfoBuffer,
                                  signingRemainder, cryptoRemainder]
                    in case new_LocalDestination destBuffer privateSigningKey' of
                         Inl e \<Rightarrow> Inl e
                       | Inr destination \<Rightarrow>
                           Inr (destination, privateSigningKey', publicSigningKey')))))"

text \<open>The byte lengths the specification tabulates for the six signing types.\<close>

definition expected_byteLength :: "nat \<Rightarrow> nat" where
  "expected_byteLength signingType =
     (if signingType = DSA_SHA1 then 387
      else if signingType = ECDSA_SHA512_P521 then 395
      else 391)"

lemma subarray_int_nat: "subarray_int xs (int s) (int e) = subarray xs s e"
proof -
  let ?n = "length xs"
  have a: "nat (min (int e) (int ?n) - min (int s) (int ?n)) = min e ?n - min s ?n"
    by (auto simp: min_def nat_diff_distrib)
  have b: "nat (min (int s) (int ?n)) = min s ?n"
    by (simp add: min_def)
  have "take (min e ?n - min s ?n) (drop (min s ?n) xs) = take (e - s) (drop s xs)"
    by (cases "s \<le> ?n"; cases "e \<le> ?n") (simp_all add: min_def)
  then show ?thesis
    by (simp add: subarray_int_def subarray_def Let_def a b)
qed

lemma subarray_int_numeral [simp]:
  "subarray_int xs (numeral s) (numeral e) = subarray xs (numeral s) (numeral e)"
  "subarray_int xs 0 (numeral e) = subarray xs 0 (numeral e)"
  "subarray_int xs 0 0 = []"
  using subarray_int_nat [of xs "numeral s" "numeral e"] subarray_int_nat [of xs 0 "numeral e"]
    subarray_int_nat [of xs 0 0]
  by (simp_all add: subarray_def)


text \<open>
  The bytes \<^verbatim>\<open>generateLocalDestination\<close> assembles from a signing key of the tabulated
  length and 256 bytes of crypto key, written out.
\<close>

definition serialized_destination :: "nat \<Rightarrow> buffer \<Rightarrow> buffer \<Rightarrow> buffer" where
  "serialized_destination signingType pub cpk =
     cpk @ replicate (128 - length pub) 0 @ take 128 pub
     @ (if signingType = DSA_SHA1 then [0, 0, 0]
        else [5] @ nat_to_be 2 (length pub - 128 + 4) @ nat_to_be 2 signingType @ [0, 0])
     @ drop 128 pub"

lemmas new_Destination_eval =
  new_Destination_def new_Destination_known_def Destination_consts Let_def readUIntBE_def
  subarray_def nth_append SIGNING_PUBLIC_KEY_LENGTHS_def CRYPTO_PUBLIC_KEY_LENGTHS_def
  nat_to_be_2

lemma subarray_int_0_int [simp]: "subarray_int xs 0 (int e) = take e xs"
  using subarray_int_nat [of xs 0 e] by (simp add: subarray_def)

definition supported_signing_type :: "nat \<Rightarrow> bool" where
  "supported_signing_type t \<longleftrightarrow>
     t \<in> {DSA_SHA1, ECDSA_SHA256_P256, ECDSA_SHA384_P384, ECDSA_SHA512_P521,
          EdDSA_SHA512_Ed25519, RedDSA_SHA512_Ed25519}"

lemma supported_cases:
  assumes "supported_signing_type t" "SIGNING_PUBLIC_KEY_LENGTHS t = Some n"
  obtains "t = 0" "n = 128" | "t = 1" "n = 64" | "t = 2" "n = 96" | "t = 3" "n = 132"
    | "t = 7" "n = 32" | "t = 11" "n = 32"
  using assms by (auto simp: supported_signing_type_def SIGNING_PUBLIC_KEY_LENGTHS_def)

lemma parse_serialized:
  assumes "supported_signing_type st" "SIGNING_PUBLIC_KEY_LENGTHS st = Some (length pub)"
    and "length cpk = 256"
  shows "new_Destination (serialized_destination st pub cpk) =
     Inr \<lparr>byteLength = Some (expected_byteLength st),
          str = bufferDestinationToString (serialized_destination st pub cpk),
          certType = (if st = DSA_SHA1 then CERT_NULL else CERT_KEY),
          cryptoPublicKey = cpk, publicSigningKey = pub,
          signingPublicKeyType = st, cryptoPublicKeyType = 0\<rparr>"
  using assms(1,2)
proof (cases rule: supported_cases)
  case 1
  then show ?thesis using assms(3)
    by (simp add: serialized_destination_def new_Destination_eval expected_byteLength_def)
next
  case 2
  then show ?thesis using assms(3)
    by (simp add: serialized_destination_def new_Destination_eval expected_byteLength_def)
next
  case 3
  then show ?thesis using assms(3)
    by (simp add: serialized_destination_def new_Destination_eval expected_byteLength_def)
next
  case 4
  then show ?thesis using assms(3)
    by (simp add: serialized_destination_def new_Destination_eval expected_byteLength_def)
next
  case 5
  then show ?thesis using assms(3)
    by (simp add: serialized_destination_def new_Destination_eval expected_byteLength_def)
next
  case 6
  then show ?thesis using assms(3)
    by (simp add: serialized_destination_def new_Destination_eval expected_byteLength_def)
qed

lemma length_serialized:
  assumes "supported_signing_type st" "SIGNING_PUBLIC_KEY_LENGTHS st = Some (length pub)"
    and "length cpk = 256"
  shows "length (serialized_destination st pub cpk) = expected_byteLength st"
  using assms(1,2)
  by (cases rule: supported_cases)
    (simp_all add: serialized_destination_def expected_byteLength_def assms(3))

lemma generate_serialized:
  assumes "supported_signing_type st" "SIGNING_PUBLIC_KEY_LENGTHS st = Some (length pub)"
    and "length cpk = 256" "keyPair st = (priv, pub)"
  shows "generateLocalDestination (Some st) keyPair cpk =
     (case new_LocalDestination (serialized_destination st pub cpk) priv of
        Inl e \<Rightarrow> Inl e
      | Inr destination \<Rightarrow> Inr (destination, priv, pub))"
  using assms(1,2)
  by (cases rule: supported_cases)
    (insert assms(3,4), simp_all add: generateLocalDestination_def serialized_destination_def
      Destination_consts Let_def writeUIntBE_def SIGNING_PUBLIC_KEY_LENGTHS_def nat_to_be_2
      subarray_def)


lemma new_LocalDestination_serialized:
  assumes "supported_signing_type st" "SIGNING_PUBLIC_KEY_LENGTHS st = Some (length pub)"
    and "length cpk = 256"
  shows "new_LocalDestination (serialized_destination st pub cpk) priv =
     Inr \<lparr>byteLength = Some (expected_byteLength st),
          str = bufferDestinationToString (serialized_destination st pub cpk),
          certType = (if st = DSA_SHA1 then CERT_NULL else CERT_KEY),
          cryptoPublicKey = cpk, publicSigningKey = pub,
          signingPublicKeyType = st, cryptoPublicKeyType = 0,
          privateSigningKey = priv\<rparr>"
  by (simp add: new_LocalDestination_def parse_serialized [OF assms] Destination.extend_def
      LocalDestination.fields_def)

text \<open>
  Claim C1 (destination round trip): for each of the six supported signing types,
  \<^verbatim>\<open>generateLocalDestination\<close> succeeds, the buffer of the destination it returns is
  the byte string it assembled, parsing that buffer again succeeds and gives the same
  buffer, and the parsed \<^verbatim>\<open>byteLength\<close> is 387 for DSA-SHA1, 395 for ECDSA-P521 and 391
  for the other four.
\<close>

theorem generated_destination_roundtrip:
  assumes "supported_signing_type st"
    and "keyPair st = (priv, pub)"
    and "SIGNING_PUBLIC_KEY_LENGTHS st = Some (length pub)"
    and "length cpk = 256"
  shows "\<exists>ld d.
      generateLocalDestination (Some st) keyPair cpk = Inr (ld, priv, pub)
    \<and> Destination_buffer ld = serialized_destination st pub cpk
    \<and> new_Destination (Destination_buffer ld) = Inr d
    \<and> Destination_buffer d = Destination_buffer ld
    \<and> byteLength d = Some (expected_byteLength st)
    \<and> length (Destination_buffer d) = expected_byteLength st"
proof -
  let ?bytes = "serialized_destination st pub cpk"
  let ?ld = "\<lparr>byteLength = Some (expected_byteLength st),
          str = bufferDestinationToString ?bytes,
          certType = (if st = DSA_SHA1 then CERT_NULL else CERT_KEY),
          cryptoPublicKey = cpk, publicSigningKey = pub,
          signingPublicKeyType = st, cryptoPublicKeyType = 0,
          privateSigningKey = priv\<rparr>"
  let ?d = "\<lparr>byteLength = Some (expected_byteLength st),
          str = bufferDestinationToString ?bytes,
          certType = (if st = DSA_SHA1 then CERT_NULL else CERT_KEY),
          cryptoPublicKey = cpk, publicSigningKey = pub,
          signingPublicKeyType = st, cryptoPublicKeyType = 0\<rparr>"
  have g: "generateLocalDestination (Some st) keyPair cpk = Inr (?ld, priv, pub)"
    using generate_serialized [of st pub cpk keyPair priv, OF assms(1,3,4,2)]
      new_LocalDestination_serialized [OF assms(1,3,4), of priv]
    by simp
  have b: "Destination_buffer ?ld = ?bytes"
    by (simp add: Destination_buffer_def destination_string_roundtrip)
  have p: "new_Destination ?bytes = Inr ?d"
    by (rule parse_serialized [OF assms(1,3,4)])
  have bd: "Destination_buffer ?d = ?bytes"
    by (simp add: Destination_buffer_def destination_string_roundtrip)
  have l: "length ?bytes = expected_byteLength st"
    by (rule length_serialized [OF assms(1,3,4)])
  show ?thesis
    apply (rule exI [of _ ?ld], rule exI [of _ ?d])
    unfolding b bd using g p l by simp
qed


theorem generated_destination_roundtrip_witness:
  "\<exists>ld d.
      generateLocalDestination (Some ECDSA_SHA512_P521)
          (\<lambda>t. (replicate 66 1, replicate 132 2)) (replicate 256 3)
        = Inr (ld, replicate 66 1, replicate 132 2)
    \<and> Destination_buffer ld =
        replicate 256 3 @ replicate 128 2 @ [5, 0, 8, 0, 3, 0, 0] @ replicate 4 2
    \<and> new_Destination (Destination_buffer ld) = Inr d
    \<and> Destination_buffer d = Destination_buffer ld
    \<and> byteLength d = Some 395
    \<and> length (Destination_buffer d) = 395"
  using generated_destination_roundtrip [of ECDSA_SHA512_P521
      "\<lambda>t. (replicate 66 1, replicate 132 2)" "replicate 66 1" "replicate 132 2"
      "replicate 256 3"]
  by (simp add: supported_signing_type_def SIGNING_PUBLIC_KEY_LENGTHS_def expected_byteLength_def
      serialized_destination_def nat_to_be_2)

subsection \<open>The default signing type\<close>

lemma generate_default_example:
  "\<exists>ld. generateLocalDestination None (\<lambda>t. (replicate 20 1, replicate 128 2)) (replicate 256 3)
          = Inr (ld, replicate 20 1, replicate 128 2)
      \<and> signingPublicKeyType ld = DSA_SHA1"
proof -
  have s: "supported_signing_type DSA_SHA1" by (simp add: supported_signing_type_def)
  have "generateLocalDestination None (\<lambda>t. (replicate 20 1, replicate 128 2)) (replicate 256 3)
      = generateLocalDestination (Some DSA_SHA1) (\<lambda>t. (replicate 20 1, replicate 128 2))
          (replicate 256 3)"
    by (simp add: generateLocalDestination_def)
  then show ?thesis
    using generate_serialized [OF s, of "replicate 128 2" "replicate 256 3"
        "\<lambda>t. (replicate 20 1, replicate 128 2)" "replicate 20 1"]
      new_LocalDestination_serialized [OF s, of "replicate 128 2" "replicate 256 3" "replicate 20 1"]
    by (simp add: SIGNING_PUBLIC_KEY_LENGTHS_def)
qed

text \<open>
  Claim C8 (a destination generated without a signing type is of type 7, Ed25519).
  \<^verbatim>\<open>generateLocalDestination\<close> declares \<^verbatim>\<open>DSA_SHA1\<close> as the default of its parameter:
  called without a signing type it returns a destination of signing type 0.
\<close>

theorem generateLocalDestination_default_counterexample:
  "\<exists>ld. generateLocalDestination None (\<lambda>t. (replicate 20 1, replicate 128 2)) (replicate 256 3)
          = Inr (ld, replicate 20 1, replicate 128 2)
      \<and> signingPublicKeyType ld = DSA_SHA1
      \<and> signingPublicKeyType ld \<noteq> EdDSA_SHA512_Ed25519"
  using generate_default_example by auto

lemma generate_success_length:
  assumes "generateLocalDestination (Some st) keyPair cpk = Inr (ld, priv, pub)"
  shows "supported_signing_type st \<and> keyPair st = (priv, pub)
       \<and> SIGNING_PUBLIC_KEY_LENGTHS st = Some (length pub)"
proof -
  obtain a b where k: "keyPair st = (a, b)" by (cases "keyPair st")
  from assms k have sup: "supported_signing_type st"
    by (auto simp: generateLocalDestination_def supported_signing_type_def Let_def
        split: if_splits)
  from assms k sup have len: "SIGNING_PUBLIC_KEY_LENGTHS st = Some (length b)"
    by (auto simp: generateLocalDestination_def supported_signing_type_def Let_def
        split: if_splits)
  from assms k sup len have "a = priv \<and> b = pub"
    by (auto simp: generateLocalDestination_def supported_signing_type_def Let_def
        split: if_splits sum.splits)
  with k len sup show ?thesis by simp
qed


lemma generate_result:
  assumes "length cpk = 256" "generateLocalDestination (Some st) keyPair cpk = Inr (ld, priv, pub)"
  shows "signingPublicKeyType ld = st"
    and "certType ld = (if st = DSA_SHA1 then CERT_NULL else CERT_KEY)"
    and "byteLength ld = Some (expected_byteLength st)"
proof -
  note h = generate_success_length [OF assms(2)]
  have "generateLocalDestination (Some st) keyPair cpk =
     Inr (\<lparr>byteLength = Some (expected_byteLength st),
          str = bufferDestinationToString (serialized_destination st pub cpk),
          certType = (if st = DSA_SHA1 then CERT_NULL else CERT_KEY),
          cryptoPublicKey = cpk, publicSigningKey = pub,
          signingPublicKeyType = st, cryptoPublicKeyType = 0,
          privateSigningKey = priv\<rparr>, priv, pub)"
    using generate_serialized [of st pub cpk keyPair priv] h assms(1)
      new_LocalDestination_serialized [of st pub cpk priv]
    by simp
  with assms(2) have ld: "ld = \<lparr>byteLength = Some (expected_byteLength st),
          str = bufferDestinationToString (serialized_destination st pub cpk),
          certType = (if st = DSA_SHA1 then CERT_NULL else CERT_KEY),
          cryptoPublicKey = cpk, publicSigningKey = pub,
          signingPublicKeyType = st, cryptoPublicKeyType = 0,
          privateSigningKey = priv\<rparr>"
    by simp
  show "signingPublicKeyType ld = st" by (simp add: ld)
  show "certType ld = (if st = DSA_SHA1 then CERT_NULL else CERT_KEY)" by (simp add: ld)
  show "byteLength ld = Some (expected_byteLength st)" by (simp add: ld)
qed

text \<open>
  \<^verbatim>\<open>SAM.generateDestination\<close> takes no signing type.  Its handler for a
  \<^verbatim>\<open>HELLO REPLY\<close> line either rejects the handshake or writes the one command below.
\<close>

fun string_includes :: "jsstring \<Rightarrow> jsstring \<Rightarrow> bool" where
  "string_includes [] p = (p = [])"
| "string_includes (c # s) p = (take (length p) (c # s) = p \<or> string_includes s p)"

datatype sam_action = SocketWrite jsstring | RejectHandshake

definition generateDestination_onHelloReply :: "jsstring \<Rightarrow> bool \<times> sam_action" where
  "generateDestination_onHelloReply message =
     (if string_includes message (js ''RESULT=OK'')
      then (True, SocketWrite (js ''DEST GENERATE SIGNATURE_TYPE=7\<newline>''))
      else (False, RejectHandshake))"

text \<open>
  Claim C8, amended: without a signing type \<^verbatim>\<open>generateLocalDestination\<close> behaves as
  with \<^verbatim>\<open>DSA_SHA1\<close> and returns a destination of signing type 0 with a NULL
  certificate and 387 bytes; with a signing type it returns that type (7 only when 7
  is passed); and the only command \<^verbatim>\<open>SAM.generateDestination\<close> writes after the
  handshake asks the router for signature type 7.
\<close>

theorem generateLocalDestination_default:
  assumes "length cpk = 256"
  shows "generateLocalDestination None keyPair cpk =
           generateLocalDestination (Some DSA_SHA1) keyPair cpk
    \<and> (\<forall>ld priv pub. generateLocalDestination None keyPair cpk = Inr (ld, priv, pub) \<longrightarrow>
          signingPublicKeyType ld = DSA_SHA1 \<and> certType ld = CERT_NULL
          \<and> byteLength ld = Some 387)
    \<and> (\<forall>st ld priv pub. generateLocalDestination (Some st) keyPair cpk = Inr (ld, priv, pub) \<longrightarrow>
          signingPublicKeyType ld = st)
    \<and> (\<forall>message. snd (generateDestination_onHelloReply message) = RejectHandshake
          \<or> snd (generateDestination_onHelloReply message) =
               SocketWrite (js ''DEST GENERATE SIGNATURE_TYPE=7\<newline>''))"
proof -
  have d: "generateLocalDestination None keyPair cpk =
           generateLocalDestination (Some DSA_SHA1) keyPair cpk"
    by (simp add: generateLocalDestination_def)
  show ?thesis
    unfolding d
    using generate_result [OF assms, of _ keyPair]
    by (auto simp: expected_byteLength_def generateDestination_onHelloReply_def)
qed

theorem generateLocalDestination_default_witness:
  "\<exists>ld. generateLocalDestination None (\<lambda>t. (replicate 20 1, replicate 128 2)) (replicate 256 3)
          = Inr (ld, replicate 20 1, replicate 128 2)
      \<and> signingPublicKeyType ld = DSA_SHA1 \<and> certType ld = CERT_NULL
      \<and> byteLength ld = Some 387"
proof -
  obtain ld where g: "generateLocalDestination None (\<lambda>t. (replicate 20 1, replicate 128 2))
      (replicate 256 3) = Inr (ld, replicate 20 1, replicate 128 2)"
    using generate_default_example by blast
  have "length (replicate 256 (3 :: byte)) = 256" by simp
  from generateLocalDestination_default [OF this, of "\<lambda>t. (replicate 20 1, replicate 128 2)"] g
  show ?thesis by blast
qed

lemma new_Destination_known_str:
  assumes "new_Destination_known dest ct st cty cl sl = Inr d"
  shows "\<exists>n. byteLength d = Some n \<and> str d = bufferDestinationToString (take n dest)"
proof -
  let ?bl0 = "int cl + max 0 (int CERT_TYPE_LOC - int cl - int sl) + int sl + 3"
  let ?bl = "if ct = CERT_KEY then ?bl0 + 4 else ?bl0"
  have nn: "0 \<le> ?bl" by simp
  have sub: "subarray_int dest 0 ?bl = take (nat ?bl) dest"
    using subarray_int_0_int [of dest "nat ?bl"] nn by (simp del: subarray_int_0_int)
  from assms have "byteLength d = Some (nat ?bl) \<and> str d = bufferDestinationToString (subarray_int dest 0 ?bl)"
    by (auto simp: new_Destination_known_def Let_def split: if_splits)
  then show ?thesis unfolding sub by blast
qed

lemma new_Destination_NaN_str:
  assumes "new_Destination_NaN dest ct st cty sl = Inr d"
  shows "byteLength d = None"
  using assms by (auto simp: new_Destination_NaN_def Let_def split: if_splits)

lemma new_Destination_str:
  assumes "new_Destination dest = Inr d" "byteLength d = Some n"
  shows "str d = bufferDestinationToString (take n dest)"
  using assms new_Destination_known_str new_Destination_NaN_str
  by (fastforce simp: new_Destination_def Let_def split: if_splits sum.splits option.splits)

lemma Destination_buffer_prefix:
  assumes "new_Destination dest = Inr d" "byteLength d = Some n"
  shows "Destination_buffer d = take n dest"
  by (simp add: Destination_buffer_def new_Destination_str [OF assms] destination_string_roundtrip)

subsection \<open>The short name\<close>

text \<open>
  \<^verbatim>\<open>destinationBufferToB32String\<close>, \<^verbatim>\<open>b64stringToB32String\<close>, the getter \<^verbatim>\<open>b32\<close> and the
  address that \<^verbatim>\<open>SAM.generateDestination\<close> builds.  SHA-256 and the Base32 encoder
  (\<^verbatim>\<open>base32.stringify\<close> without padding) are the libraries', parameters here;
  \<^verbatim>\<open>toLowerCase\<close> is written for the letters A to Z, the only letters of Base32.
\<close>

definition toLowerCase :: "jsstring \<Rightarrow> jsstring" where
  "toLowerCase s = map (\<lambda>c. if 0x41 \<le> c \<and> c \<le> 0x5A then c + 0x20 else c) s"

definition destinationBufferToB32String ::
  "(buffer \<Rightarrow> buffer) \<Rightarrow> (buffer \<Rightarrow> jsstring) \<Rightarrow> buffer \<Rightarrow> jsstring" where
  "destinationBufferToB32String sha256 base32_stringify destinationBuffer =
     toLowerCase (base32_stringify (sha256 destinationBuffer))"

definition b64stringToB32String ::
  "(buffer \<Rightarrow> buffer) \<Rightarrow> (buffer \<Rightarrow> jsstring) \<Rightarrow> jsstring \<Rightarrow> jsstring" where
  "b64stringToB32String sha256 base32_stringify base64Destination =
     destinationBufferToB32String sha256 base32_stringify
       (stringDestinationToBuffer base64Destination)"

definition b32 ::
  "(buffer \<Rightarrow> buffer) \<Rightarrow> (buffer \<Rightarrow> jsstring) \<Rightarrow> 'a Destination_scheme \<Rightarrow> jsstring" where
  "b32 sha256 base32_stringify d = b64stringToB32String sha256 base32_stringify (str d)"

definition generateDestination_address ::
  "(buffer \<Rightarrow> buffer) \<Rightarrow> (buffer \<Rightarrow> jsstring) \<Rightarrow> jsstring \<Rightarrow> jsstring" where
  "generateDestination_address sha256 base32_stringify publicKey =
     b64stringToB32String sha256 base32_stringify publicKey @ js ''.b32.i2p''"

lemma null_destination_parses:
  "new_Destination (replicate 387 0) =
     Inr \<lparr>byteLength = Some 387, str = bufferDestinationToString (replicate 387 0),
          certType = 0, cryptoPublicKey = replicate 256 0, publicSigningKey = replicate 128 0,
          signingPublicKeyType = 0, cryptoPublicKeyType = 0\<rparr>"
  by (simp add: new_Destination_eval)

text \<open>
  Claim C4 (the short name of a destination is the lowercase unpadded Base32 of the
  SHA-256 of its bytes, followed by \<open>.b32.i2p\<close>).  The getter \<^verbatim>\<open>b32\<close> of the destination
  returns the Base32 text alone, whatever the hash and the encoder are.
\<close>

theorem b32_suffix_counterexample:
  "\<forall>sha256 base32_stringify.
     \<exists>d. new_Destination (replicate 387 0) = Inr d
        \<and> b32 sha256 base32_stringify d \<noteq>
            toLowerCase (base32_stringify (sha256 (Destination_buffer d))) @ js ''.b32.i2p''"
  by (simp add: null_destination_parses b32_def b64stringToB32String_def
      destinationBufferToB32String_def Destination_buffer_def js_def)

text \<open>
  Claim C4, amended: \<^verbatim>\<open>b32\<close> is the lowercase unpadded Base32 of the SHA-256 of the
  first \<^verbatim>\<open>byteLength\<close> bytes of the parsed buffer, without a suffix; the suffix
  \<open>.b32.i2p\<close> is appended by \<^verbatim>\<open>SAM.generateDestination\<close> when it builds the address.
\<close>

theorem b32_is_lowercase_base32_of_sha256:
  assumes "new_Destination dest = Inr d" "byteLength d = Some n"
  shows "b32 sha256 base32_stringify d = toLowerCase (base32_stringify (sha256 (take n dest)))
    \<and> hashBuffer sha256 d = sha256 (take n dest)
    \<and> generateDestination_address sha256 base32_stringify (Destination_string d) =
        toLowerCase (base32_stringify (sha256 (take n dest))) @ js ''.b32.i2p''"
  using Destination_buffer_prefix [OF assms]
  by (simp add: b32_def b64stringToB32String_def destinationBufferToB32String_def
      generateDestination_address_def Destination_string_def hashBuffer_def
      Destination_buffer_def)

theorem b32_is_lowercase_base32_of_sha256_witness:
  "\<forall>sha256 base32_stringify.
     \<exists>d. new_Destination (replicate 387 0 @ [1, 2, 3]) = Inr d
        \<and> b32 sha256 base32_stringify d =
            toLowerCase (base32_stringify (sha256 (replicate 387 0)))
        \<and> generateDestination_address sha256 base32_stringify (Destination_string d) =
            toLowerCase (base32_stringify (sha256 (replicate 387 0))) @ js ''.b32.i2p''"
proof (intro allI)
  fix sha256 :: "buffer \<Rightarrow> buffer" and base32_stringify :: "buffer \<Rightarrow> jsstring"
  let ?d = "\<lparr>byteLength = Some 387,
          str = bufferDestinationToString (replicate 387 0),
          certType = 0, cryptoPublicKey = replicate 256 0, publicSigningKey = replicate 128 0,
          signingPublicKeyType = 0, cryptoPublicKeyType = 0\<rparr>"
  have p: "new_Destination (replicate 387 0 @ [1, 2, 3]) = Inr ?d"
    by (simp add: new_Destination_eval)
  have n: "byteLength ?d = Some 387" by simp
  show "\<exists>d. new_Destination (replicate 387 0 @ [1, 2, 3]) = Inr d
        \<and> b32 sha256 base32_stringify d =
            toLowerCase (base32_stringify (sha256 (replicate 387 0)))
        \<and> generateDestination_address sha256 base32_stringify (Destination_string d) =
            toLowerCase (base32_stringify (sha256 (replicate 387 0))) @ js ''.b32.i2p''"
    using b32_is_lowercase_base32_of_sha256 [OF p n, of sha256 base32_stringify] p
    by simp
qed

subsection \<open>Trailing bytes\<close>

text \<open>
  Where the constructor does read a destination off the front of a longer buffer.  A
  destination that is built has a \<^verbatim>\<open>byteLength\<close> of at most the length of the input
  whenever that is a number, so its buffer has exactly \<^verbatim>\<open>byteLength\<close> bytes; and when the
  crypto key type is ElGamal (256 bytes, the type every destination built by
  \<^verbatim>\<open>generateLocalDestination\<close> has), bytes that follow the destination change nothing.
\<close>

lemma subarray_int_nonneg:
  "0 \<le> a \<Longrightarrow> 0 \<le> b \<Longrightarrow> subarray_int xs a b = subarray xs (nat a) (nat b)"
  using subarray_int_nat [of xs "nat a" "nat b"] by simp

lemma length_subarray_int:
  "0 \<le> a \<Longrightarrow> 0 \<le> b \<Longrightarrow>
     length (subarray_int xs a b) = min (nat b - nat a) (length xs - nat a)"
  by (simp add: subarray_int_nonneg subarray_def min.commute)

lemma subarray_int_append:
  "0 \<le> a \<Longrightarrow> 0 \<le> b \<Longrightarrow> b \<le> int (length xs) \<Longrightarrow>
     subarray_int (xs @ ys) a b = subarray_int xs a b"
  by (simp add: subarray_int_nonneg subarray_def)

lemma subarray_int_empty:
  "0 \<le> a \<Longrightarrow> 0 \<le> b \<Longrightarrow> b \<le> a \<Longrightarrow> subarray_int xs a b = []"
  by (simp add: subarray_int_nonneg subarray_def)

lemma tables_bounds:
  "SIGNING_PUBLIC_KEY_LENGTHS st = Some sl \<Longrightarrow> 32 \<le> sl"
  "CRYPTO_PUBLIC_KEY_LENGTHS ct = Some cl \<Longrightarrow> 32 \<le> cl \<and> cl \<le> 256"
  "SIGNING_PUBLIC_KEY_LENGTHS 0 = Some 128"
  "CRYPTO_PUBLIC_KEY_LENGTHS 0 = Some 256"
  by (auto simp: SIGNING_PUBLIC_KEY_LENGTHS_def CRYPTO_PUBLIC_KEY_LENGTHS_def split: if_splits)

lemma known_byteLength_le:
  assumes "new_Destination_known dest ct st cty cl sl = Inr d"
    and "32 \<le> sl" "32 \<le> cl" "cl \<le> 256" "387 \<le> length dest"
    and "ct = CERT_KEY \<longrightarrow> 391 \<le> length dest"
    and "ct \<noteq> CERT_KEY \<longrightarrow> sl = 128 \<and> cl = 256"
    and "byteLength d = Some n"
  shows "n \<le> length dest"
proof -
  let ?len = "int (length dest)"
  let ?pad = "max 0 (384 - int cl - int sl)"
  let ?start = "min (int cl) 256 + ?pad"
  have l1: "length (subarray_int dest ?start 384) = nat (384 - ?start)"
    using assms(2-5) by (subst length_subarray_int) (auto simp: min_def max_def)
  have l2: "length (subarray_int dest 391 (391 + (int sl - 128)))
      = min (nat (263 + int sl) - 391) (length dest - 391)"
    using assms(2) by (subst length_subarray_int) (auto simp: algebra_simps)
  from assms(1) have ok: "length (subarray_int dest ?start 384
        @ subarray_int dest 391 (391 + (int sl - 128))) = sl"
    by (auto simp: new_Destination_known_def Destination_consts Let_def split: if_splits)
  from assms(1,8) have n: "int n = int cl + ?pad + int sl + 3 + (if ct = CERT_KEY then 4 else 0)"
    by (auto simp: new_Destination_known_def Destination_consts Let_def split: if_splits)
  from ok have "nat (384 - ?start) + min (nat (263 + int sl) - 391) (length dest - 391) = sl"
    unfolding length_append l1 l2 .
  with n assms(2-7) show ?thesis
    by (auto simp: min_def max_def split: if_splits)
qed


lemma new_Destination_cases:
  assumes "new_Destination dest = Inr d"
  obtains (known) ct st cty cl sl where
      "387 \<le> length dest" "ct = unat (dest ! 384)"
      "ct = CERT_KEY \<longrightarrow> 391 \<le> length dest \<and> st = be_to_nat (subarray dest 387 389)
          \<and> cty = be_to_nat (subarray dest 389 391)"
      "ct \<noteq> CERT_KEY \<longrightarrow> st = 0 \<and> cty = 0"
      "SIGNING_PUBLIC_KEY_LENGTHS st = Some sl" "CRYPTO_PUBLIC_KEY_LENGTHS cty = Some cl"
      "new_Destination_known dest ct st cty cl sl = Inr d"
  | (nan) ct st cty sl where
      "387 \<le> length dest" "CRYPTO_PUBLIC_KEY_LENGTHS cty = None"
      "new_Destination_NaN dest ct st cty sl = Inr d"
proof -
  let ?ct = "unat (dest ! 384)"
  let ?st = "if ?ct = CERT_KEY then be_to_nat (subarray dest 387 389) else 0"
  let ?cty = "if ?ct = CERT_KEY then be_to_nat (subarray dest 389 391) else 0"
  from assms have len: "387 \<le> length dest"
    by (auto simp: new_Destination_def split: if_splits)
  from assms len have key: "?ct = CERT_KEY \<longrightarrow> 391 \<le> length dest"
    by (auto simp: new_Destination_def Let_def Destination_consts readUIntBE_def
        split: if_splits)
  from assms len key have body:
    "(case SIGNING_PUBLIC_KEY_LENGTHS ?st of
        None \<Rightarrow> Inl BareError
      | Some sl \<Rightarrow>
          (case CRYPTO_PUBLIC_KEY_LENGTHS ?cty of
             None \<Rightarrow> new_Destination_NaN dest ?ct ?st ?cty sl
           | Some cl \<Rightarrow> new_Destination_known dest ?ct ?st ?cty cl sl)) = Inr d"
    by (auto simp: new_Destination_def Let_def Destination_consts readUIntBE_def
        split: if_splits)
  then obtain sl where sl: "SIGNING_PUBLIC_KEY_LENGTHS ?st = Some sl"
    by (cases "SIGNING_PUBLIC_KEY_LENGTHS ?st") auto
  show thesis
  proof (cases "CRYPTO_PUBLIC_KEY_LENGTHS ?cty")
    case None
    with body sl have "new_Destination_NaN dest ?ct ?st ?cty sl = Inr d" by simp
    with len None show thesis by (rule nan)
  next
    case (Some cl)
    with body sl have k: "new_Destination_known dest ?ct ?st ?cty cl sl = Inr d" by simp
    show thesis
      by (rule known [OF len refl _ _ sl Some k]) (use key in auto)
  qed
qed

lemma Destination_byteLength_le:
  assumes "new_Destination dest = Inr d" "byteLength d = Some n"
  shows "n \<le> length dest"
  using assms(1)
proof (cases rule: new_Destination_cases)
  case (known ct st cty cl sl)
  have a: "32 \<le> sl" "32 \<le> cl" "cl \<le> 256"
    using tables_bounds(1) [OF known(5)] tables_bounds(2) [OF known(6)] by simp_all
  have b: "ct \<noteq> CERT_KEY \<longrightarrow> sl = 128 \<and> cl = 256"
    using known(4,5,6) tables_bounds(3,4) by auto
  show ?thesis
    by (rule known_byteLength_le [OF known(7) a known(1) _ b assms(2)]) (use known(3) in simp)
next
  case (nan ct st cty sl)
  with assms(2) show ?thesis using new_Destination_NaN_str by fastforce
qed

lemma Destination_buffer_length:
  assumes "new_Destination dest = Inr d" "byteLength d = Some n"
  shows "length (Destination_buffer d) = n"
  using Destination_buffer_prefix [OF assms] Destination_byteLength_le [OF assms] by simp


lemma known_trailing:
  assumes ok: "new_Destination_known dest ct st cty cl sl = Inr d"
    and cl: "cl = 256" and sl: "32 \<le> sl" and len: "387 \<le> length dest"
    and key: "ct = CERT_KEY \<longrightarrow> 391 \<le> length dest"
    and nokey: "ct \<noteq> CERT_KEY \<longrightarrow> sl = 128"
  shows "new_Destination_known (dest @ t) ct st cty cl sl = Inr d"
proof -
  let ?rem = "int sl - PARTIAL_SIGNIN_MAX"
  let ?pad = "max 0 (int CERT_TYPE_LOC - int cl - int sl)"
  let ?start = "min (int cl) PARTIAL_CRYPTO_MAX + ?pad"
  let ?B = "int cl + ?pad + int sl + 3"
  let ?bl = "if ct = CERT_KEY then ?B + 4 else ?B"
  have e1: "subarray_int (dest @ t) ?start (int CERT_TYPE_LOC)
      = subarray_int dest ?start (int CERT_TYPE_LOC)"
    using len by (intro subarray_int_append) (simp_all add: Destination_consts)
  have l1: "length (subarray_int dest ?start (int CERT_TYPE_LOC)) = nat (384 - ?start)"
    using len cl by (subst length_subarray_int) (auto simp: Destination_consts min_def max_def)
  have l2: "length (subarray_int dest SIGN_REMAI_LOC (SIGN_REMAI_LOC + ?rem))
      = min (nat (263 + int sl) - 391) (length dest - 391)"
    using sl by (subst length_subarray_int) (auto simp: Destination_consts algebra_simps)
  from ok have "length (subarray_int dest ?start (int CERT_TYPE_LOC)
        @ subarray_int dest SIGN_REMAI_LOC (SIGN_REMAI_LOC + ?rem)) = sl"
    by (auto simp: new_Destination_known_def Let_def split: if_splits)
  then have tot: "nat (384 - ?start) + min (nat (263 + int sl) - 391) (length dest - 391) = sl"
    unfolding length_append l1 l2 .
  have e2: "subarray_int (dest @ t) SIGN_REMAI_LOC (SIGN_REMAI_LOC + ?rem)
      = subarray_int dest SIGN_REMAI_LOC (SIGN_REMAI_LOC + ?rem)"
  proof (cases "sl \<le> 128")
    case True
    then have "subarray_int xs SIGN_REMAI_LOC (SIGN_REMAI_LOC + ?rem) = []" for xs :: buffer
      using sl by (intro subarray_int_empty) (simp_all add: Destination_consts)
    then show ?thesis by simp
  next
    case False
    with tot cl have "263 + sl \<le> length dest"
      by (auto simp: Destination_consts min_def max_def split: if_splits)
    then show ?thesis
      by (intro subarray_int_append) (simp_all add: Destination_consts)
  qed
  have e3: "subarray_int (dest @ t) 0 (max PARTIAL_CRYPTO_MAX (int cl))
      = subarray_int dest 0 (max PARTIAL_CRYPTO_MAX (int cl))"
    using len cl by (intro subarray_int_append) (simp_all add: Destination_consts)
  have e4: "subarray_int xs (PUB_PADD_SIGN_LEN + ?rem)
        (PUB_PADD_SIGN_LEN + ?rem + (int cl - PARTIAL_CRYPTO_MAX)) = []" for xs :: buffer
    using sl cl by (intro subarray_int_empty) (simp_all add: Destination_consts)
  have bl: "nat ?bl \<le> length dest"
  proof -
    from ok have "byteLength d = Some (nat ?bl)"
      by (auto simp: new_Destination_known_def Let_def split: if_splits)
    then show ?thesis
      using known_byteLength_le [OF ok sl _ _ len key] cl nokey by simp
  qed
  have e5: "subarray_int (dest @ t) 0 ?bl = subarray_int dest 0 ?bl"
    using bl by (intro subarray_int_append) (auto simp: Destination_consts)
  show ?thesis
    using ok unfolding new_Destination_known_def Let_def e1 e2 e3 e4 e5 .
qed


lemma subarray_append:
  "e \<le> length xs \<Longrightarrow> subarray (xs @ ys) s e = subarray xs s e"
  by (simp add: subarray_def)

lemma new_Destination_trailing:
  assumes ok: "new_Destination dest = Inr d" and el: "cryptoPublicKeyType d = 0"
  shows "new_Destination (dest @ t) = Inr d"
  using ok
proof (cases rule: new_Destination_cases)
  case (known ct st cty cl sl)
  from known(7) have "cryptoPublicKeyType d = cty"
    by (auto simp: new_Destination_known_def Let_def split: if_splits)
  with el have cty: "cty = 0" by simp
  with known(6) have cl: "cl = 256" by (simp add: CRYPTO_PUBLIC_KEY_LENGTHS_def)
  have sl: "32 \<le> sl" using tables_bounds(1) [OF known(5)] .
  have nokey: "ct \<noteq> CERT_KEY \<longrightarrow> sl = 128"
    using known(4,5) tables_bounds(3) by auto
  have key: "ct = CERT_KEY \<longrightarrow> 391 \<le> length dest" using known(3) by simp
  have k: "new_Destination_known (dest @ t) ct st cty cl sl = Inr d"
    by (rule known_trailing [OF known(7) cl sl known(1) key nokey])
  have n: "(dest @ t) ! 384 = dest ! 384" using known(1) by (simp add: nth_append)
  show ?thesis
  proof (cases "ct = CERT_KEY")
    case True
    with known(3) have l: "391 \<le> length dest" by simp
    then have s: "subarray (dest @ t) 387 389 = subarray dest 387 389"
      "subarray (dest @ t) 389 391 = subarray dest 389 391"
      by (simp_all add: subarray_append)
    from True known(2,3) l k known(5,6) show ?thesis
      by (simp add: new_Destination_def Let_def Destination_consts readUIntBE_def n s)
  next
    case False
    with known(4) have "st = 0" "cty = 0" by simp_all
    with False known(1,2) k known(5,6) show ?thesis
      by (simp add: new_Destination_def Let_def Destination_consts n)
  qed
next
  case (nan ct st cty sl)
  from nan(3) have "cryptoPublicKeyType d = cty"
    by (auto simp: new_Destination_NaN_def Let_def split: if_splits)
  with el nan(2) show ?thesis by (simp add: CRYPTO_PUBLIC_KEY_LENGTHS_def)
qed


text \<open>
  Claim C9 (the constructor reads a destination off the front of a longer buffer, and
  the buffer of a destination has \<^verbatim>\<open>byteLength\<close> bytes).  The theorem evaluates the
  constructor where it does not: a key certificate with signing type 3 (132-byte key)
  and crypto type 1 (64-byte key) is accepted as a destination of 391 bytes when the
  buffer ends there, and rejected when one more byte follows; and a key certificate
  with signing type 5 and an unknown crypto type 9 gives a destination whose
  \<^verbatim>\<open>byteLength\<close> is NaN and whose buffer is empty.
\<close>

theorem Destination_trailing_byte_rejected:
  "(\<exists>d. new_Destination (replicate 384 0 @ [5, 0, 4, 0, 3, 0, 1]) = Inr d
        \<and> byteLength d = Some 391
        \<and> Destination_buffer d = replicate 384 0 @ [5, 0, 4, 0, 3, 0, 1])
   \<and> new_Destination (replicate 384 0 @ [5, 0, 4, 0, 3, 0, 1] @ [0]) = Inl BareError
   \<and> (\<exists>d. new_Destination (replicate 384 0 @ [5, 0, 4, 0, 5, 0, 9]) = Inr d
        \<and> byteLength d = None \<and> Destination_buffer d = [])"
proof (intro conjI)
  let ?p = "replicate 384 0 @ [5, 0, 4, 0, 3, 0, 1] :: buffer"
  have "\<exists>d. new_Destination ?p = Inr d \<and> byteLength d = Some 391"
    by (simp add: new_Destination_eval)
  then obtain d where d: "new_Destination ?p = Inr d" "byteLength d = Some 391" by blast
  have "Destination_buffer d = take 391 ?p" by (rule Destination_buffer_prefix [OF d])
  then have "Destination_buffer d = ?p" by simp
  with d show "\<exists>d. new_Destination ?p = Inr d \<and> byteLength d = Some 391
      \<and> Destination_buffer d = ?p" by blast
next
  show "new_Destination (replicate 384 0 @ [5, 0, 4, 0, 3, 0, 1] @ [0]) = Inl BareError"
    by (simp add: new_Destination_eval)
next
  show "\<exists>d. new_Destination (replicate 384 0 @ [5, 0, 4, 0, 5, 0, 9]) = Inr d
        \<and> byteLength d = None \<and> Destination_buffer d = []"
    by (simp add: new_Destination_eval new_Destination_NaN_def Destination_buffer_def
        bufferDestinationToString_def stringDestinationToBuffer_def replaceAll_def
        base64_decode_def base64_sextets_def)
qed

section \<open>Datagram envelope: repliable datagrams\<close>

text \<open>
  The signature primitives are the libraries': DSA (\<^verbatim>\<open>sign\<close>, \<^verbatim>\<open>verify\<close> of
  \<^verbatim>\<open>crypto/dsa\<close>), Ed25519, RedDSA with its random bytes drawn, and ECDSA over P-256,
  P-384 and P-521 with the signature in compact form.  They are the fields of a
  record, each with the argument order of the call in the source, keys as bytes; a
  primitive may throw.
\<close>

record signature_library =
  dsa_sign :: "buffer \<Rightarrow> buffer \<Rightarrow> error + buffer"
  dsa_verify :: "buffer \<Rightarrow> buffer \<Rightarrow> buffer \<Rightarrow> error + bool"
  signED25519 :: "buffer \<Rightarrow> buffer \<Rightarrow> error + buffer"
  verifyED25519 :: "buffer \<Rightarrow> buffer \<Rightarrow> buffer \<Rightarrow> error + bool"
  reddsa_sign :: "buffer \<Rightarrow> buffer \<Rightarrow> error + buffer"
  reddsa_verify :: "buffer \<Rightarrow> buffer \<Rightarrow> buffer \<Rightarrow> error + bool"
  p256_sign :: "buffer \<Rightarrow> buffer \<Rightarrow> error + buffer"
  p256_verify :: "buffer \<Rightarrow> buffer \<Rightarrow> buffer \<Rightarrow> error + bool"
  p384_sign :: "buffer \<Rightarrow> buffer \<Rightarrow> error + buffer"
  p384_verify :: "buffer \<Rightarrow> buffer \<Rightarrow> buffer \<Rightarrow> error + bool"
  p521_sign :: "buffer \<Rightarrow> buffer \<Rightarrow> error + buffer"
  p521_verify :: "buffer \<Rightarrow> buffer \<Rightarrow> buffer \<Rightarrow> error + bool"

text \<open>
  \<^verbatim>\<open>Destination.verify\<close>, \<^verbatim>\<open>Destination.verifyPayload\<close>, \<^verbatim>\<open>LocalDestination.sign\<close>,
  \<^verbatim>\<open>LocalDestination.signPayload\<close> and \<^verbatim>\<open>createDatagram1\<close>.
\<close>

definition Destination_verify ::
  "signature_library \<Rightarrow> 'a Destination_scheme \<Rightarrow> buffer \<Rightarrow> buffer \<Rightarrow> error + bool" where
  "Destination_verify lib d data signature =
     (if certType d = CERT_NULL \<or> signingPublicKeyType d = DSA_SHA1
      then dsa_verify lib (publicSigningKey d) data signature
      else if signingPublicKeyType d = EdDSA_SHA512_Ed25519
      then verifyED25519 lib signature data (publicSigningKey d)
      else if signingPublicKeyType d = RedDSA_SHA512_Ed25519
      then reddsa_verify lib data signature (publicSigningKey d)
      else if signingPublicKeyType d = ECDSA_SHA256_P256
      then p256_verify lib signature data (0x04 # publicSigningKey d)
      else if signingPublicKeyType d = ECDSA_SHA384_P384
      then p384_verify lib signature data (0x04 # publicSigningKey d)
      else if signingPublicKeyType d = ECDSA_SHA512_P521
      then p521_verify lib signature data (0x04 # publicSigningKey d)
      else Inl UnsupportedCertType)"

definition verifyPayload ::
  "signature_library \<Rightarrow> (buffer \<Rightarrow> buffer) \<Rightarrow> 'a Destination_scheme \<Rightarrow> buffer \<Rightarrow> buffer \<Rightarrow>
     error + bool" where
  "verifyPayload lib sha256 d data signature =
     (if signingPublicKeyType d = DSA_SHA1 then Destination_verify lib d (sha256 data) signature
      else Destination_verify lib d data signature)"

definition LocalDestination_sign ::
  "signature_library \<Rightarrow> LocalDestination \<Rightarrow> buffer \<Rightarrow> error + buffer" where
  "LocalDestination_sign lib d data =
     (if signingPublicKeyType d = EdDSA_SHA512_Ed25519
      then signED25519 lib data (privateSigningKey d)
      else if signingPublicKeyType d = DSA_SHA1
      then dsa_sign lib (privateSigningKey d) data
      else if signingPublicKeyType d = RedDSA_SHA512_Ed25519
      then reddsa_sign lib data (privateSigningKey d)
      else if signingPublicKeyType d = ECDSA_SHA256_P256
      then p256_sign lib data (privateSigningKey d)
      else if signingPublicKeyType d = ECDSA_SHA384_P384
      then p384_sign lib data (privateSigningKey d)
      else if signingPublicKeyType d = ECDSA_SHA512_P521
      then p521_sign lib data (privateSigningKey d)
      else Inl UnsupportedSigningType)"

definition signPayload ::
  "signature_library \<Rightarrow> (buffer \<Rightarrow> buffer) \<Rightarrow> LocalDestination \<Rightarrow> buffer \<Rightarrow> error + buffer" where
  "signPayload lib sha256 d data =
     (if signingPublicKeyType d = DSA_SHA1 then LocalDestination_sign lib d (sha256 data)
      else LocalDestination_sign lib d data)"

definition createDatagram1 ::
  "signature_library \<Rightarrow> (buffer \<Rightarrow> buffer) \<Rightarrow> LocalDestination \<Rightarrow> buffer \<Rightarrow> error + buffer" where
  "createDatagram1 lib sha256 from payload =
     (case signPayload lib sha256 from payload of
        Inl e \<Rightarrow> Inl e
      | Inr signature \<Rightarrow> Inr (concat [Destination_buffer from, signature, payload]))"

text \<open>
  What is asked of the library at a signing type \<open>t\<close>, a key pair, some data and a
  signature \<open>s\<close>: \<open>t\<close> is one of the six types that have a primitive, the primitive
  of \<open>t\<close> returns \<open>s\<close> for the data and the private key, its verification accepts \<open>s\<close>
  for the data and the public key, and \<open>s\<close> has the length tabulated for \<open>t\<close>.
\<close>

definition library_signs ::
  "signature_library \<Rightarrow> nat \<Rightarrow> buffer \<Rightarrow> buffer \<Rightarrow> buffer \<Rightarrow> buffer \<Rightarrow> bool" where
  "library_signs lib t priv pub data s \<longleftrightarrow>
     t = DSA_SHA1 \<and> dsa_sign lib priv data = Inr s
       \<and> dsa_verify lib pub data s = Inr True \<and> length s = 40
   \<or> t = EdDSA_SHA512_Ed25519 \<and> signED25519 lib data priv = Inr s
       \<and> verifyED25519 lib s data pub = Inr True \<and> length s = 64
   \<or> t = RedDSA_SHA512_Ed25519 \<and> reddsa_sign lib data priv = Inr s
       \<and> reddsa_verify lib data s pub = Inr True \<and> length s = 64
   \<or> t = ECDSA_SHA256_P256 \<and> p256_sign lib data priv = Inr s
       \<and> p256_verify lib s data (0x04 # pub) = Inr True \<and> length s = 64
   \<or> t = ECDSA_SHA384_P384 \<and> p384_sign lib data priv = Inr s
       \<and> p384_verify lib s data (0x04 # pub) = Inr True \<and> length s = 96
   \<or> t = ECDSA_SHA512_P521 \<and> p521_sign lib data priv = Inr s
       \<and> p521_verify lib s data (0x04 # pub) = Inr True \<and> length s = 132"

lemma new_Destination_known_types:
  assumes "new_Destination_known dest ct st cty cl sl = Inr d"
  shows "certType d = ct \<and> signingPublicKeyType d = st"
  using assms by (auto simp: new_Destination_known_def Let_def split: if_splits)

lemma new_Destination_NaN_types:
  assumes "new_Destination_NaN dest ct st cty sl = Inr d"
  shows "certType d = ct \<and> signingPublicKeyType d = st"
  using assms by (auto simp: new_Destination_NaN_def Let_def split: if_splits)

lemma new_Destination_cert_invariant:
  assumes "new_Destination dest = Inr d" "certType d \<noteq> CERT_KEY"
  shows "signingPublicKeyType d = DSA_SHA1"
proof -
  let ?ct = "unat (dest ! CERT_TYPE_LOC)"
  from assms(1) have len: "\<not> length dest < 387"
    by (auto simp: new_Destination_def split: if_splits)
  show ?thesis
  proof (cases "CERT_KEY = ?ct")
    case False
    with assms(1) len have "certType d = ?ct \<and> signingPublicKeyType d = 0"
      by (auto simp: new_Destination_def Let_def
          dest: new_Destination_known_types new_Destination_NaN_types
          split: option.splits)
    then show ?thesis by simp
  next
    case True
    with assms(1) len have "certType d = CERT_KEY"
      by (auto simp: new_Destination_def Let_def
          dest: new_Destination_known_types new_Destination_NaN_types
          split: option.splits sum.splits)
    with assms(2) show ?thesis by simp
  qed
qed

lemma new_LocalDestination_fields:
  assumes "new_LocalDestination dest priv = Inr ld"
  shows "\<exists>d. new_Destination dest = Inr d \<and> certType ld = certType d
      \<and> signingPublicKeyType ld = signingPublicKeyType d
      \<and> publicSigningKey ld = publicSigningKey d \<and> str ld = str d
      \<and> byteLength ld = byteLength d \<and> privateSigningKey ld = priv"
  using assms
  by (auto simp: new_LocalDestination_def Destination.extend_def LocalDestination.fields_def
      split: sum.splits)

lemma sign_then_verify:
  assumes "new_LocalDestination dest priv = Inr from"
    and "library_signs lib (signingPublicKeyType from) (privateSigningKey from)
           (publicSigningKey from) data s"
  shows "LocalDestination_sign lib from data = Inr s"
    and "Destination_verify lib from data s = Inr True"
    and "signatureByteLength from = Some (length s)"
proof -
  obtain d where d: "new_Destination dest = Inr d" "certType from = certType d"
      "signingPublicKeyType from = signingPublicKeyType d"
    using new_LocalDestination_fields [OF assms(1)] by blast
  have inv: "certType from \<noteq> CERT_KEY \<Longrightarrow> signingPublicKeyType from = DSA_SHA1"
    using new_Destination_cert_invariant [OF d(1)] d(2,3) by simp
  note c = assms(2) [unfolded library_signs_def]
  show "LocalDestination_sign lib from data = Inr s"
    using c by (auto simp: LocalDestination_sign_def)
  show "Destination_verify lib from data s = Inr True"
    using c inv by (auto simp: Destination_verify_def)
  show "signatureByteLength from = Some (length s)"
    using c by (auto simp: signatureByteLength_def SIGNATURE_LENGTHS_def)
qed

lemma sign_unsupported:
  assumes "signingPublicKeyType from \<notin> {DSA_SHA1, ECDSA_SHA256_P256, ECDSA_SHA384_P384,
      ECDSA_SHA512_P521, EdDSA_SHA512_Ed25519, RedDSA_SHA512_Ed25519}"
  shows "createDatagram1 lib sha256 from payload = Inl UnsupportedSigningType"
  using assms
  by (simp add: createDatagram1_def signPayload_def LocalDestination_sign_def)

text \<open>
  Claim C3 (for every local destination and every payload \<^verbatim>\<open>createDatagram1\<close> produces
  destination bytes, signature and payload).  As stated the claim fails: the
  constructor accepts a key certificate with signing type 8 (Ed25519ph), for which
  \<^verbatim>\<open>sign\<close> has no branch, and \<^verbatim>\<open>createDatagram1\<close> throws "Unsupported signing type" for
  every payload, whatever the library.
\<close>

theorem createDatagram1_unsupported_counterexample:
  "\<forall>lib sha256 priv payload.
     \<exists>from. new_LocalDestination (replicate 384 0 @ [5, 0, 4, 0, 8, 0, 0]) priv = Inr from
       \<and> signingPublicKeyType from = 8
       \<and> createDatagram1 lib sha256 from payload = Inl UnsupportedSigningType"
proof (intro allI)
  fix lib :: signature_library and sha256 :: "buffer \<Rightarrow> buffer" and priv payload :: buffer
  have "\<exists>d. new_Destination (replicate 384 0 @ [5, 0, 4, 0, 8, 0, 0]) = Inr d
      \<and> signingPublicKeyType d = 8"
    by (simp add: new_Destination_eval)
  then obtain ld where f:
    "new_LocalDestination (replicate 384 0 @ [5, 0, 4, 0, 8, 0, 0]) priv = Inr ld"
    "signingPublicKeyType ld = 8"
    by (auto simp: new_LocalDestination_def Destination.extend_def LocalDestination.fields_def)
  from f(2) have "createDatagram1 lib sha256 ld payload = Inl UnsupportedSigningType"
    by (intro sign_unsupported) simp
  with f show "\<exists>from. new_LocalDestination (replicate 384 0 @ [5, 0, 4, 0, 8, 0, 0]) priv = Inr from
       \<and> signingPublicKeyType from = 8
       \<and> createDatagram1 lib sha256 from payload = Inl UnsupportedSigningType"
    by blast
qed

text \<open>
  Claim C3, amended (repliable datagram): for a local destination made by the
  constructor whose signing type is one of the six that have a primitive, and a
  payload for which the library signs, that is, the primitive returns a signature for
  the SHA-256 of the payload when the type is DSA-SHA1 and for the payload itself
  otherwise, and verifies it, \<^verbatim>\<open>createDatagram1\<close> returns the destination bytes, that
  signature and the payload, concatenated, and \<^verbatim>\<open>verifyPayload\<close> of the destination
  accepts the signature slice of the datagram against its payload slice, the slices
  cut at the length of the destination bytes and at \<^verbatim>\<open>signatureByteLength\<close>.  For every
  other signing type \<^verbatim>\<open>createDatagram1\<close> throws.
\<close>

theorem createDatagram1_signed_layout:
  assumes "new_LocalDestination dest priv = Inr from"
  shows "(\<forall>signature.
          library_signs lib (signingPublicKeyType from) (privateSigningKey from)
            (publicSigningKey from)
            (if signingPublicKeyType from = DSA_SHA1 then sha256 payload else payload)
            signature \<longrightarrow>
          (\<exists>datagram.
             createDatagram1 lib sha256 from payload = Inr datagram
           \<and> datagram = Destination_buffer from @ signature @ payload
           \<and> signatureByteLength from = Some (length signature)
           \<and> verifyPayload lib sha256 from
               (drop (length (Destination_buffer from) + length signature) datagram)
               (subarray datagram (length (Destination_buffer from))
                  (length (Destination_buffer from) + length signature)) = Inr True))
    \<and> (signingPublicKeyType from \<notin> {DSA_SHA1, ECDSA_SHA256_P256, ECDSA_SHA384_P384,
            ECDSA_SHA512_P521, EdDSA_SHA512_Ed25519, RedDSA_SHA512_Ed25519} \<longrightarrow>
          createDatagram1 lib sha256 from payload = Inl UnsupportedSigningType)"
proof (intro conjI allI impI)
  fix signature
  let ?data = "if signingPublicKeyType from = DSA_SHA1 then sha256 payload else payload"
  let ?datagram = "Destination_buffer from @ signature @ payload"
  assume a: "library_signs lib (signingPublicKeyType from) (privateSigningKey from)
            (publicSigningKey from) ?data signature"
  note v = sign_then_verify [OF assms a]
  have dg: "createDatagram1 lib sha256 from payload = Inr ?datagram"
    using v(1) by (simp add: createDatagram1_def signPayload_def split: if_splits)
  have p: "drop (length (Destination_buffer from) + length signature) ?datagram = payload"
    by simp
  have g: "subarray ?datagram (length (Destination_buffer from))
      (length (Destination_buffer from) + length signature) = signature"
    by (simp add: subarray_def)
  have "verifyPayload lib sha256 from payload signature = Inr True"
    using v(2) by (auto simp: verifyPayload_def)
  with dg v(3) show "\<exists>datagram.
             createDatagram1 lib sha256 from payload = Inr datagram
           \<and> datagram = Destination_buffer from @ signature @ payload
           \<and> signatureByteLength from = Some (length signature)
           \<and> verifyPayload lib sha256 from
               (drop (length (Destination_buffer from) + length signature) datagram)
               (subarray datagram (length (Destination_buffer from))
                  (length (Destination_buffer from) + length signature)) = Inr True"
    unfolding p g by (simp add: p g)
next
  assume "signingPublicKeyType from \<notin> {DSA_SHA1, ECDSA_SHA256_P256, ECDSA_SHA384_P384,
            ECDSA_SHA512_P521, EdDSA_SHA512_Ed25519, RedDSA_SHA512_Ed25519}"
  then show "createDatagram1 lib sha256 from payload = Inl UnsupportedSigningType"
    by (rule sign_unsupported)
qed

text \<open>
  A keyed tag in place of each signature primitive (the public key is the private
  key, and the tag has the length of the signature): an instance of what is asked of
  the library, on which the datagram code can be run.
\<close>

definition tag :: "nat \<Rightarrow> buffer \<Rightarrow> buffer \<Rightarrow> buffer" where
  "tag n key data = take n (data @ key @ replicate n 0)"

definition keyed_tag_library :: signature_library where
  "keyed_tag_library =
     \<lparr>dsa_sign = (\<lambda>priv data. Inr (tag 40 priv data)),
      dsa_verify = (\<lambda>pub data s. Inr (s = tag 40 pub data)),
      signED25519 = (\<lambda>data priv. Inr (tag 64 priv data)),
      verifyED25519 = (\<lambda>s data pub. Inr (s = tag 64 pub data)),
      reddsa_sign = (\<lambda>data priv. Inr (tag 64 priv data)),
      reddsa_verify = (\<lambda>data s pub. Inr (s = tag 64 pub data)),
      p256_sign = (\<lambda>data priv. Inr (tag 64 priv data)),
      p256_verify = (\<lambda>s data pub. Inr (s = tag 64 (tl pub) data)),
      p384_sign = (\<lambda>data priv. Inr (tag 96 priv data)),
      p384_verify = (\<lambda>s data pub. Inr (s = tag 96 (tl pub) data)),
      p521_sign = (\<lambda>data priv. Inr (tag 132 priv data)),
      p521_verify = (\<lambda>s data pub. Inr (s = tag 132 (tl pub) data))\<rparr>"

lemma keyed_tag_library_signs:
  "library_signs keyed_tag_library DSA_SHA1 key key data (tag 40 key data)"
  by (simp add: library_signs_def keyed_tag_library_def tag_def)

theorem createDatagram1_signed_layout_witness:
  "\<exists>from datagram signature.
      new_LocalDestination
        (serialized_destination DSA_SHA1 (replicate 128 1) (replicate 256 3))
        (replicate 128 1) = Inr from
    \<and> signature = tag 40 (replicate 128 1) [2, 3, 4]
    \<and> createDatagram1 keyed_tag_library (map (\<lambda>b. b + 1)) from [1, 2, 3] = Inr datagram
    \<and> datagram = Destination_buffer from @ signature @ [1, 2, 3]
    \<and> verifyPayload keyed_tag_library (map (\<lambda>b. b + 1)) from
          (drop (length (Destination_buffer from) + length signature) datagram)
          (subarray datagram (length (Destination_buffer from))
             (length (Destination_buffer from) + length signature)) = Inr True"
proof -
  let ?pub = "replicate 128 1 :: buffer"
  let ?dest = "serialized_destination DSA_SHA1 ?pub (replicate 256 3)"
  let ?from = "\<lparr>byteLength = Some (expected_byteLength DSA_SHA1),
          str = bufferDestinationToString ?dest,
          certType = (if DSA_SHA1 = DSA_SHA1 then CERT_NULL else CERT_KEY),
          cryptoPublicKey = replicate 256 3, publicSigningKey = ?pub,
          signingPublicKeyType = DSA_SHA1, cryptoPublicKeyType = 0,
          privateSigningKey = ?pub\<rparr>"
  let ?sha = "map (\<lambda>b. b + 1) :: buffer \<Rightarrow> buffer"
  have n: "new_LocalDestination ?dest ?pub = Inr ?from"
    by (rule new_LocalDestination_serialized)
      (simp_all add: supported_signing_type_def SIGNING_PUBLIC_KEY_LENGTHS_def)
  have c: "library_signs keyed_tag_library (signingPublicKeyType ?from)
      (privateSigningKey ?from) (publicSigningKey ?from)
      (if signingPublicKeyType ?from = DSA_SHA1 then ?sha [1, 2, 3] else [1, 2, 3])
      (tag 40 ?pub [2, 3, 4])"
    using keyed_tag_library_signs [of ?pub "[2, 3, 4]"] by simp
  from createDatagram1_signed_layout [OF n, of keyed_tag_library ?sha "[1, 2, 3]",
      THEN conjunct1, rule_format, OF c] n
  show ?thesis by blast
qed

section \<open>RedDSA\<close>

text \<open>
  \<^verbatim>\<open>crypto/RedDSA.ts\<close>.  Big integers are \<open>int\<close>; \<^verbatim>\<open>etc.mod(a, L)\<close> is \<open>a mod L\<close>.
\<close>

definition L :: int where
  "L = 7237005577332262213973186563042994240857116359379907606001950938285454250989"

definition cofactor :: int where
  "cofactor = 8"

fun bytesToNumberLE_loop :: "buffer \<Rightarrow> nat \<Rightarrow> int \<Rightarrow> int" where
  "bytesToNumberLE_loop [] i v = v"
| "bytesToNumberLE_loop (b # bs) i v =
     bytesToNumberLE_loop bs (i + 1) (v + push_bit (8 * i) (uint b))"

definition bytesToNumberLE :: "buffer \<Rightarrow> int" where
  "bytesToNumberLE bytes = bytesToNumberLE_loop bytes 0 0"

fun numberToBytesLE :: "int \<Rightarrow> nat \<Rightarrow> buffer" where
  "numberToBytesLE n 0 = []"
| "numberToBytesLE n (Suc byteLength') =
     word_of_int (n AND 0xff) # numberToBytesLE (drop_bit 8 n) byteLength'"

text \<open>
  \<^verbatim>\<open>hStar\<close>; SHA-512 is the library's, a parameter.  The two length bytes are
  \<^verbatim>\<open>msg.byteLength & 0xff\<close> and \<^verbatim>\<open>(msg.byteLength >> 8) & 0xff\<close>.
\<close>

definition hStar :: "(buffer \<Rightarrow> buffer) \<Rightarrow> buffer \<Rightarrow> buffer \<Rightarrow> buffer \<Rightarrow> int" where
  "hStar sha512 prefix1 prefix2 msg =
     (let length1 = [word_of_nat (length msg) :: byte];
          length2 = [word_of_nat (length msg div 256) :: byte];
          data = concat [map of_char ''I2P_Red25519H(x)'', prefix1, prefix2, length1, length2,
                         msg];
          hash = sha512 data
      in bytesToNumberLE hash mod L)"

text \<open>
  The point arithmetic of the curve is the library's (\<^verbatim>\<open>ExtendedPoint\<close>): the base
  point, the identity, the scalar multiple of a point, addition, negation, equality, the
  32-byte encoding and its decoder, which throws (\<open>None\<close>) on bytes that encode no
  point.  They are the fields of a record over the type of points.
\<close>

record 'p curve =
  BASE :: 'p
  ZERO :: 'p
  scalar_multiple :: "'p \<Rightarrow> int \<Rightarrow> 'p"
  add :: "'p \<Rightarrow> 'p \<Rightarrow> 'p"
  negate :: "'p \<Rightarrow> 'p"
  equals :: "'p \<Rightarrow> 'p \<Rightarrow> bool"
  toRawBytes :: "'p \<Rightarrow> buffer"
  fromHex :: "buffer \<Rightarrow> 'p option"

text \<open>
  The method \<^verbatim>\<open>multiply\<close> of a point is the library's too.  It refuses the scalar 0
  ("cannot multiply by 0") and every scalar outside \<open>0 < n < L\<close> ("invalid scalar"),
  and returns the scalar multiple otherwise.
\<close>

definition multiply :: "'p curve \<Rightarrow> 'p \<Rightarrow> int \<Rightarrow> error + 'p" where
  "multiply C P n =
     (if n = 0 then Inl CannotMultiplyBy0
      else if \<not> (0 < n \<and> n < L) then Inl InvalidScalar
      else Inr (scalar_multiple C P n))"

text \<open>
  \<^verbatim>\<open>RedDSA.derivePublicKey\<close>, \<^verbatim>\<open>RedDSA.sign\<close> with the 80 random bytes \<open>T\<close> it draws as an
  argument, and \<^verbatim>\<open>RedDSA.verify\<close>.  \<^verbatim>\<open>Buffer.copyBytesFrom(view, offset, length)\<close>
  copies at most \<open>length\<close> bytes from \<open>offset\<close> on.  What \<^verbatim>\<open>multiply\<close> throws is not
  caught by any of the three; \<^verbatim>\<open>verify\<close> catches what the decoder throws.
\<close>

definition derivePublicKey :: "'p curve \<Rightarrow> buffer \<Rightarrow> error + buffer" where
  "derivePublicKey C secretKey =
     (let sk = bytesToNumberLE secretKey in
      case multiply C (BASE C) (sk mod L) of
        Inl e \<Rightarrow> Inl e
      | Inr vk \<Rightarrow> Inr (toRawBytes C vk))"

definition RedDSA_sign ::
  "'p curve \<Rightarrow> (buffer \<Rightarrow> buffer) \<Rightarrow> buffer \<Rightarrow> buffer \<Rightarrow> buffer \<Rightarrow> error + buffer" where
  "RedDSA_sign C sha512 T message secretKey =
     (if length secretKey \<noteq> 32 then Inl SecretKeyLength
      else
        (let sk = bytesToNumberLE secretKey in
         case derivePublicKey C secretKey of
           Inl e \<Rightarrow> Inl e
         | Inr vkBytes \<Rightarrow>
             (let r = hStar sha512 T vkBytes message in
              case multiply C (BASE C) r of
                Inl e \<Rightarrow> Inl e
              | Inr R \<Rightarrow>
                  (let Rbytes = toRawBytes C R;
                       c = hStar sha512 Rbytes vkBytes message;
                       S = (r + c * sk) mod L
                   in Inr (Rbytes @ numberToBytesLE S 32)))))"

definition copyBytesFrom :: "buffer \<Rightarrow> nat \<Rightarrow> nat \<Rightarrow> buffer" where
  "copyBytesFrom view offset len = take len (drop offset view)"

definition RedDSA_verify ::
  "'p curve \<Rightarrow> (buffer \<Rightarrow> buffer) \<Rightarrow> buffer \<Rightarrow> buffer \<Rightarrow> buffer \<Rightarrow> error + bool" where
  "RedDSA_verify C sha512 message signature publicKey =
     (if length signature \<noteq> 64 then Inr False
      else if length publicKey \<noteq> 32 then Inr False
      else
        (let Rbytes = copyBytesFrom signature 0 32;
             Sbytes = copyBytesFrom signature 32 64
         in case fromHex C Rbytes of
              None \<Rightarrow> Inr False
            | Some R \<Rightarrow>
                (let S = bytesToNumberLE Sbytes in
                 if S \<ge> L then Inr False
                 else
                   (case fromHex C publicKey of
                      None \<Rightarrow> Inr False
                    | Some vk \<Rightarrow>
                        (let c = hStar sha512 Rbytes (toRawBytes C vk) message in
                         case multiply C (BASE C) S of
                           Inl e \<Rightarrow> Inl e
                         | Inr SB' \<Rightarrow>
                             (let SB = negate C SB' in
                              case multiply C vk c of
                                Inl e \<Rightarrow> Inl e
                              | Inr cVK \<Rightarrow>
                                  (let check = add C (add C SB R) cVK in
                                   case multiply C check cofactor of
                                     Inl e \<Rightarrow> Inl e
                                   | Inr final \<Rightarrow> Inr (equals C final (ZERO C)))))))))"

text \<open>
  What is assumed of the point arithmetic: on the multiples of the base point the
  scalar multiple, the addition and the negation are those of a cyclic group of order
  \<open>L\<close>, the encoding of such a point decodes to it, encodings have 32 bytes, and
  \<^verbatim>\<open>equals\<close> is equality.
\<close>

definition curve_laws :: "'p curve \<Rightarrow> bool" where
  "curve_laws C \<longleftrightarrow>
     (\<forall>m n. add C (scalar_multiple C (BASE C) m) (scalar_multiple C (BASE C) n)
              = scalar_multiple C (BASE C) (m + n))
   \<and> (\<forall>m n. scalar_multiple C (scalar_multiple C (BASE C) m) n
              = scalar_multiple C (BASE C) (m * n))
   \<and> (\<forall>m. negate C (scalar_multiple C (BASE C) m) = scalar_multiple C (BASE C) (- m))
   \<and> (\<forall>m. scalar_multiple C (BASE C) (m mod L) = scalar_multiple C (BASE C) m)
   \<and> scalar_multiple C (BASE C) 0 = ZERO C
   \<and> (\<forall>m. fromHex C (toRawBytes C (scalar_multiple C (BASE C) m))
            = Some (scalar_multiple C (BASE C) m))
   \<and> (\<forall>P. length (toRawBytes C P) = 32)
   \<and> (\<forall>P Q. equals C P Q \<longleftrightarrow> P = Q)"

text \<open>The little-endian value of a byte string, by recursion on the bytes.\<close>

fun le_value :: "buffer \<Rightarrow> int" where
  "le_value [] = 0"
| "le_value (b # bs) = uint b + 256 * le_value bs"

lemma bytesToNumberLE_loop_value:
  "bytesToNumberLE_loop bs i v = v + 2 ^ (8 * i) * le_value bs"
proof (induction bs arbitrary: i v)
  case Nil
  then show ?case by simp
next
  case (Cons b bs)
  have "(2::int) ^ (8 * (i + 1)) = 2 ^ (8 * i) * 256" by (simp add: power_add)
  then show ?case
    by (simp add: Cons push_bit_eq_mult algebra_simps)
qed

lemma bytesToNumberLE_value: "bytesToNumberLE bs = le_value bs"
  by (simp add: bytesToNumberLE_def bytesToNumberLE_loop_value)

lemma zdiv_lt_iff_helper:
  fixes n q :: int
  assumes "n < q * 256"
  shows "n div 256 < q"
proof -
  have "n = n div 256 * 256 + n mod 256" by simp
  moreover have "0 \<le> n mod 256" by simp
  ultimately have "n div 256 * 256 \<le> n" by linarith
  then have "n div 256 * 256 < q * 256" using assms by linarith
  then show ?thesis by simp
qed

lemma le_value_numberToBytesLE:
  "0 \<le> n \<Longrightarrow> n < 256 ^ k \<Longrightarrow> le_value (numberToBytesLE n k) = n"
proof (induction k arbitrary: n)
  case 0
  then show ?case by simp
next
  case (Suc k)
  have "n AND mask 8 = n mod 2 ^ 8"
    by (simp only: take_bit_eq_mask [symmetric] take_bit_eq_mod)
  moreover have "mask 8 = (0xff :: int)" by (simp add: mask_eq_exp_minus_1)
  ultimately have a: "n AND 0xff = n mod 256" by simp
  have u: "uint (word_of_int (n mod 256) :: byte) = n mod 256"
    by (simp add: uint_word_of_int)
  have d: "drop_bit 8 n = n div 256" by (simp add: drop_bit_eq_div)
  have "0 \<le> n div 256" using Suc.prems by simp
  moreover have "n div 256 < 256 ^ k"
  proof -
    have "n < 256 ^ k * 256" using Suc.prems by (simp add: mult.commute)
    then show ?thesis by (rule zdiv_lt_iff_helper)
  qed
  ultimately have "0 \<le> n div 256" "n div 256 < 256 ^ k" by simp_all
  then have "le_value (numberToBytesLE (n div 256) k) = n div 256" by (rule Suc.IH)
  then show ?case by (simp add: a u d)
qed

lemma length_numberToBytesLE [simp]: "length (numberToBytesLE n k) = k"
  by (induction k arbitrary: n) auto

lemma L_bounds: "0 < L" "L < 256 ^ 32"
  by (simp_all add: L_def)

lemma bytesToNumberLE_numberToBytesLE_mod:
  "bytesToNumberLE (numberToBytesLE (x mod L) 32) = x mod L"
proof -
  have "0 \<le> x mod L" "x mod L < L" using L_bounds by simp_all
  then have "x mod L < 256 ^ 32" using L_bounds(2) by linarith
  with \<open>0 \<le> x mod L\<close> show ?thesis
    by (simp only: bytesToNumberLE_value le_value_numberToBytesLE)
qed

lemma schnorr_residue:
  fixes r c sk :: int
  shows "((- ((r + c * sk) mod L) + r + (sk mod L) * c) * cofactor) mod L = 0"
proof -
  let ?a = "r + c * sk"
  have 1: "((sk mod L) * c) mod L = (sk * c) mod L" by (rule mod_mult_left_eq)
  have 2: "(r - ?a mod L) mod L = (r - ?a) mod L" by (rule mod_diff_right_eq)
  have "(- (?a mod L) + r + (sk mod L) * c) mod L = ((r - ?a mod L) + (sk mod L) * c) mod L"
    by simp
  also have "\<dots> = ((r - ?a mod L) mod L + ((sk mod L) * c) mod L) mod L"
    by (rule mod_add_eq [symmetric])
  also have "\<dots> = ((r - ?a) mod L + (sk * c) mod L) mod L" by (simp only: 1 2)
  also have "\<dots> = (r - ?a + sk * c) mod L" by (rule mod_add_eq)
  also have "\<dots> = 0" by (simp add: algebra_simps)
  finally have z: "(- (?a mod L) + r + (sk mod L) * c) mod L = 0" .
  have "((- (?a mod L) + r + (sk mod L) * c) * cofactor) mod L
      = (((- (?a mod L) + r + (sk mod L) * c) mod L) * cofactor) mod L"
    by (rule mod_mult_left_eq [symmetric])
  also have "\<dots> = 0" unfolding z by simp
  finally show ?thesis .
qed


lemma le_value_nonneg: "0 \<le> le_value bs"
  by (induction bs) simp_all

lemma le_value_zeros: "le_value (replicate n 0) = 0"
  by (induction n) simp_all

lemma hStar_range: "0 \<le> hStar sha512 p1 p2 msg" "hStar sha512 p1 p2 msg < L"
  using L_bounds(1) by (simp_all add: hStar_def Let_def)

lemma multiply_in_range:
  "0 \<le> n \<Longrightarrow> n < L \<Longrightarrow>
     multiply C P n = (if n = 0 then Inl CannotMultiplyBy0 else Inr (scalar_multiple C P n))"
  by (simp add: multiply_def)

lemma multiply_cofactor: "multiply C P cofactor = Inr (scalar_multiple C P cofactor)"
  by (simp add: multiply_def cofactor_def L_def)

lemma derivePublicKey_value:
  "derivePublicKey C secretKey =
     (if bytesToNumberLE secretKey mod L = 0 then Inl CannotMultiplyBy0
      else Inr (toRawBytes C (scalar_multiple C (BASE C) (bytesToNumberLE secretKey mod L))))"
proof -
  have "0 \<le> bytesToNumberLE secretKey mod L" "bytesToNumberLE secretKey mod L < L"
    using L_bounds(1) by simp_all
  then show ?thesis
    by (simp add: derivePublicKey_def Let_def multiply_in_range)
qed

lemma RedDSA_verify_accepts:
  assumes laws: "curve_laws C"
  defines "B \<equiv> BASE C"
  assumes S: "S = (r + c * sk) mod L"
    and c: "c = hStar sha512 (toRawBytes C (scalar_multiple C B r))
                  (toRawBytes C (scalar_multiple C B (sk mod L))) message"
  shows "RedDSA_verify C sha512 message
           (toRawBytes C (scalar_multiple C B r) @ numberToBytesLE S 32)
           (toRawBytes C (scalar_multiple C B (sk mod L)))
         = (if S = 0 \<or> c = 0 then Inl CannotMultiplyBy0 else Inr True)"
proof -
  let ?R = "scalar_multiple C B r" and ?V = "scalar_multiple C B (sk mod L)"
  let ?Rb = "toRawBytes C ?R" and ?Vb = "toRawBytes C ?V"
  let ?sig = "?Rb @ numberToBytesLE S 32"
  from laws have
    addl: "\<And>m n. add C (scalar_multiple C B m) (scalar_multiple C B n)
             = scalar_multiple C B (m + n)" and
    mull: "\<And>m n. scalar_multiple C (scalar_multiple C B m) n = scalar_multiple C B (m * n)" and
    negl: "\<And>m. negate C (scalar_multiple C B m) = scalar_multiple C B (- m)" and
    modl: "\<And>m. scalar_multiple C B (m mod L) = scalar_multiple C B m" and
    zero: "scalar_multiple C B 0 = ZERO C" and
    hex: "\<And>m. fromHex C (toRawBytes C (scalar_multiple C B m)) = Some (scalar_multiple C B m)" and
    len: "\<And>P. length (toRawBytes C P) = 32" and
    eq: "\<And>P Q. equals C P Q \<longleftrightarrow> P = Q"
    unfolding curve_laws_def B_def by blast+
  have l1: "length ?sig = 64" by (simp add: len)
  have l2: "length ?Vb = 32" by (simp add: len)
  have rb: "copyBytesFrom ?sig 0 32 = ?Rb" by (simp add: copyBytesFrom_def len)
  have sb: "copyBytesFrom ?sig 32 64 = numberToBytesLE S 32"
    by (simp add: copyBytesFrom_def len)
  have sv: "bytesToNumberLE (numberToBytesLE S 32) = S"
    unfolding S by (rule bytesToNumberLE_numberToBytesLE_mod)
  have sr: "0 \<le> S" "S < L" unfolding S using L_bounds(1) by simp_all
  have cr: "0 \<le> c" "c < L" unfolding c by (rule hStar_range)+
  have mS: "multiply C (BASE C) S
      = (if S = 0 then Inl CannotMultiplyBy0 else Inr (scalar_multiple C B S))"
    unfolding B_def by (rule multiply_in_range [OF sr])
  have mc: "multiply C ?V c
      = (if c = 0 then Inl CannotMultiplyBy0 else Inr (scalar_multiple C ?V c))"
    by (rule multiply_in_range [OF cr])
  have "scalar_multiple C
          (add C (add C (negate C (scalar_multiple C B S)) ?R) (scalar_multiple C ?V c)) cofactor
      = scalar_multiple C B ((- S + r + (sk mod L) * c) * cofactor)"
    by (simp only: negl addl mull)
  also have "\<dots> = scalar_multiple C B (((- S + r + (sk mod L) * c) * cofactor) mod L)"
    by (simp only: modl)
  also have "\<dots> = ZERO C"
    unfolding S schnorr_residue by (rule zero)
  finally have fin: "scalar_multiple C
      (add C (add C (negate C (scalar_multiple C B S)) ?R) (scalar_multiple C ?V c)) cofactor
      = ZERO C" .
  show ?thesis
    unfolding RedDSA_verify_def Let_def rb sb sv hex option.case l1 l2 c [symmetric] mS mc
    using sr(2) fin by (simp add: eq multiply_cofactor)
qed

lemma RedDSA_verify_unfold:
  assumes "length signature = 64" "length publicKey = 32"
    and "fromHex C (copyBytesFrom signature 0 32) = Some R"
    and "bytesToNumberLE (copyBytesFrom signature 32 64) < L"
    and "bytesToNumberLE (copyBytesFrom signature 32 64) \<noteq> 0"
    and "fromHex C publicKey = Some vk"
    and "hStar sha512 (copyBytesFrom signature 0 32) (toRawBytes C vk) message \<noteq> 0"
  shows "RedDSA_verify C sha512 message signature publicKey =
     Inr (equals C
       (scalar_multiple C
          (add C
             (add C
                (negate C
                   (scalar_multiple C (BASE C) (bytesToNumberLE (copyBytesFrom signature 32 64))))
                R)
             (scalar_multiple C vk
                (hStar sha512 (copyBytesFrom signature 0 32) (toRawBytes C vk) message)))
          cofactor)
       (ZERO C))"
proof -
  let ?S = "bytesToNumberLE (copyBytesFrom signature 32 64)"
  let ?c = "hStar sha512 (copyBytesFrom signature 0 32) (toRawBytes C vk) message"
  have "0 \<le> ?S" by (simp add: bytesToNumberLE_value le_value_nonneg)
  with assms(4,5) have mS: "multiply C (BASE C) ?S = Inr (scalar_multiple C (BASE C) ?S)"
    by (simp add: multiply_in_range)
  have mc: "multiply C vk ?c = Inr (scalar_multiple C vk ?c)"
    using hStar_range [of sha512 "copyBytesFrom signature 0 32" "toRawBytes C vk" message]
      assms(7) by (simp add: multiply_in_range)
  show ?thesis
    using assms(1-4,6)
    by (simp add: RedDSA_verify_def Let_def not_le [symmetric] mS mc multiply_cofactor)
qed

lemma RedDSA_sign_zero_key:
  "bytesToNumberLE secretKey mod L = 0 \<Longrightarrow> length secretKey = 32 \<Longrightarrow>
     RedDSA_sign C sha512 T message secretKey = Inl CannotMultiplyBy0"
  by (simp add: RedDSA_sign_def derivePublicKey_value)

text \<open>
  Claim C2 (for every secret key of 32 bytes \<^verbatim>\<open>sign\<close> returns a signature that \<^verbatim>\<open>verify\<close>
  accepts).  As stated the claim fails: for the key of 32 zero bytes, whatever the
  curve arithmetic, the hash, the random bytes and the message, \<^verbatim>\<open>derivePublicKey\<close>
  and \<^verbatim>\<open>sign\<close> throw, because \<^verbatim>\<open>multiply\<close> refuses the scalar 0.
\<close>

theorem RedDSA_zero_key_counterexample:
  "\<forall>C sha512 T message.
      derivePublicKey C (replicate 32 0) = Inl CannotMultiplyBy0
    \<and> RedDSA_sign C sha512 T message (replicate 32 0) = Inl CannotMultiplyBy0"
proof (intro allI)
  fix C :: "'p curve" and sha512 :: "buffer \<Rightarrow> buffer" and T message :: buffer
  have z: "bytesToNumberLE (replicate 32 0) mod L = 0"
    by (simp add: bytesToNumberLE_value le_value_zeros)
  show "derivePublicKey C (replicate 32 0) = Inl CannotMultiplyBy0
    \<and> RedDSA_sign C sha512 T message (replicate 32 0) = Inl CannotMultiplyBy0"
    using z by (simp add: derivePublicKey_value RedDSA_sign_zero_key)
qed

text \<open>
  Claim C2, amended: for every secret key of 32 bytes that is not 0 modulo \<open>L\<close>, every
  message and every draw \<open>T\<close>, with \<open>r = H*(T, vk, msg)\<close>, \<open>R = r*B\<close>, \<open>c = H*(R, vk, msg)\<close>
  and \<open>S = (r + c*sk) mod L\<close>: \<^verbatim>\<open>sign\<close> returns \<open>R_bytes || S_bytes_LE\<close> when \<open>r\<close> is not 0
  (and throws when it is), and \<^verbatim>\<open>verify\<close> returns true for that signature and the
  derived public key when neither \<open>S\<close> nor \<open>c\<close> is 0 (and throws when one is); and on a
  well-formed signature and key with \<open>S\<close> and \<open>c\<close> not 0, \<^verbatim>\<open>verify\<close> is the test that
  \<open>cofactor * (-S*B + R + c*vk)\<close> is the identity.
\<close>

theorem RedDSA_sign_then_verify:
  assumes "curve_laws C" "length secretKey = 32" "bytesToNumberLE secretKey mod L \<noteq> 0"
  shows "(\<exists>vkBytes r R c S signature.
        derivePublicKey C secretKey = Inr vkBytes
      \<and> vkBytes = toRawBytes C
          (scalar_multiple C (BASE C) (bytesToNumberLE secretKey mod L))
      \<and> r = hStar sha512 T vkBytes message
      \<and> R = scalar_multiple C (BASE C) r
      \<and> c = hStar sha512 (toRawBytes C R) vkBytes message
      \<and> S = (r + c * bytesToNumberLE secretKey) mod L
      \<and> signature = toRawBytes C R @ numberToBytesLE S 32
      \<and> RedDSA_sign C sha512 T message secretKey =
          (if r = 0 then Inl CannotMultiplyBy0 else Inr signature)
      \<and> (r \<noteq> 0 \<longrightarrow>
           RedDSA_verify C sha512 message signature vkBytes =
             (if S = 0 \<or> c = 0 then Inl CannotMultiplyBy0 else Inr True)))
    \<and> (\<forall>signature publicKey R vk.
          length signature = 64 \<and> length publicKey = 32
        \<and> fromHex C (copyBytesFrom signature 0 32) = Some R
        \<and> bytesToNumberLE (copyBytesFrom signature 32 64) < L
        \<and> bytesToNumberLE (copyBytesFrom signature 32 64) \<noteq> 0
        \<and> fromHex C publicKey = Some vk
        \<and> hStar sha512 (copyBytesFrom signature 0 32) (toRawBytes C vk) message \<noteq> 0 \<longrightarrow>
          RedDSA_verify C sha512 message signature publicKey =
            Inr (equals C
              (scalar_multiple C
                 (add C
                    (add C
                       (negate C
                          (scalar_multiple C (BASE C)
                             (bytesToNumberLE (copyBytesFrom signature 32 64))))
                       R)
                    (scalar_multiple C vk
                       (hStar sha512 (copyBytesFrom signature 0 32) (toRawBytes C vk) message)))
                 cofactor)
              (ZERO C)))"
proof (intro conjI allI impI)
  let ?sk = "bytesToNumberLE secretKey"
  let ?vkB = "toRawBytes C (scalar_multiple C (BASE C) (?sk mod L))"
  let ?r = "hStar sha512 T ?vkB message"
  let ?R = "scalar_multiple C (BASE C) ?r"
  let ?c = "hStar sha512 (toRawBytes C ?R) ?vkB message"
  let ?S = "(?r + ?c * ?sk) mod L"
  let ?sig = "toRawBytes C ?R @ numberToBytesLE ?S 32"
  have vk: "derivePublicKey C secretKey = Inr ?vkB"
    using assms(3) by (simp add: derivePublicKey_value)
  have mr: "multiply C (BASE C) ?r
      = (if ?r = 0 then Inl CannotMultiplyBy0 else Inr ?R)"
    by (rule multiply_in_range [OF hStar_range])
  have sg: "RedDSA_sign C sha512 T message secretKey =
      (if ?r = 0 then Inl CannotMultiplyBy0 else Inr ?sig)"
    using assms(2) by (simp add: RedDSA_sign_def Let_def vk mr)
  have ve: "RedDSA_verify C sha512 message ?sig ?vkB =
      (if ?S = 0 \<or> ?c = 0 then Inl CannotMultiplyBy0 else Inr True)"
    by (rule RedDSA_verify_accepts [OF assms(1) refl refl])
  from vk sg ve show "\<exists>vkBytes r R c S signature.
        derivePublicKey C secretKey = Inr vkBytes
      \<and> vkBytes = toRawBytes C
          (scalar_multiple C (BASE C) (bytesToNumberLE secretKey mod L))
      \<and> r = hStar sha512 T vkBytes message
      \<and> R = scalar_multiple C (BASE C) r
      \<and> c = hStar sha512 (toRawBytes C R) vkBytes message
      \<and> S = (r + c * bytesToNumberLE secretKey) mod L
      \<and> signature = toRawBytes C R @ numberToBytesLE S 32
      \<and> RedDSA_sign C sha512 T message secretKey =
          (if r = 0 then Inl CannotMultiplyBy0 else Inr signature)
      \<and> (r \<noteq> 0 \<longrightarrow>
           RedDSA_verify C sha512 message signature vkBytes =
             (if S = 0 \<or> c = 0 then Inl CannotMultiplyBy0 else Inr True))"
    by blast
next
  fix signature publicKey R vk
  assume "length signature = 64 \<and> length publicKey = 32
        \<and> fromHex C (copyBytesFrom signature 0 32) = Some R
        \<and> bytesToNumberLE (copyBytesFrom signature 32 64) < L
        \<and> bytesToNumberLE (copyBytesFrom signature 32 64) \<noteq> 0
        \<and> fromHex C publicKey = Some vk
        \<and> hStar sha512 (copyBytesFrom signature 0 32) (toRawBytes C vk) message \<noteq> 0"
  then show "RedDSA_verify C sha512 message signature publicKey =
            Inr (equals C
              (scalar_multiple C
                 (add C
                    (add C
                       (negate C
                          (scalar_multiple C (BASE C)
                             (bytesToNumberLE (copyBytesFrom signature 32 64))))
                       R)
                    (scalar_multiple C vk
                       (hStar sha512 (copyBytesFrom signature 0 32) (toRawBytes C vk) message)))
                 cofactor)
              (ZERO C))"
    by (intro RedDSA_verify_unfold) simp_all
qed


text \<open>
  The integers modulo \<open>L\<close>, generated by 1, are a cyclic group of order \<open>L\<close>: an
  instance of the laws on which the code can be run.
\<close>

definition scalar_curve :: "int curve" where
  "scalar_curve =
     \<lparr>BASE = 1, ZERO = 0,
      scalar_multiple = (\<lambda>p n. (p * n) mod L),
      add = (\<lambda>p q. (p + q) mod L),
      negate = (\<lambda>p. (- p) mod L),
      equals = (\<lambda>p q. p = q),
      toRawBytes = (\<lambda>p. numberToBytesLE p 32),
      fromHex = (\<lambda>bytes. Some (bytesToNumberLE bytes))\<rparr>"

lemma scalar_curve_laws: "curve_laws scalar_curve"
  unfolding curve_laws_def scalar_curve_def
  by (simp add: mod_add_eq mod_mult_left_eq mod_minus_eq bytesToNumberLE_numberToBytesLE_mod)

lemma hStar_take8:
  "hStar (take 8) p1 p2 msg = 3631138604028277321"
  by (simp add: hStar_def Let_def bytesToNumberLE_value L_def)

theorem RedDSA_sign_then_verify_witness:
  "\<exists>vkBytes signature.
      derivePublicKey scalar_curve (2 # replicate 31 0) = Inr vkBytes
    \<and> RedDSA_sign scalar_curve (take 8) (replicate 80 7) [1, 2, 3] (2 # replicate 31 0)
        = Inr signature
    \<and> length signature = 64
    \<and> RedDSA_verify scalar_curve (take 8) [1, 2, 3] signature vkBytes = Inr True"
proof -
  have len: "length (2 # replicate 31 (0 :: byte)) = 32" by simp
  have sk: "bytesToNumberLE (2 # replicate 31 0) = 2"
    by (simp add: bytesToNumberLE_value le_value_zeros)
  have nz: "bytesToNumberLE (2 # replicate 31 0) mod L \<noteq> 0"
    unfolding sk by (simp add: L_def)
  from RedDSA_sign_then_verify [OF scalar_curve_laws len nz, of "take 8" "replicate 80 7"
      "[1, 2, 3]", THEN conjunct1]
  obtain vkBytes r R c S signature where
    "derivePublicKey scalar_curve (2 # replicate 31 0) = Inr vkBytes"
    "r = hStar (take 8) (replicate 80 7) vkBytes [1, 2, 3]"
    "c = hStar (take 8) (toRawBytes scalar_curve R) vkBytes [1, 2, 3]"
    "S = (r + c * bytesToNumberLE (2 # replicate 31 0)) mod L"
    "signature = toRawBytes scalar_curve R @ numberToBytesLE S 32"
    "RedDSA_sign scalar_curve (take 8) (replicate 80 7) [1, 2, 3] (2 # replicate 31 0) =
       (if r = 0 then Inl CannotMultiplyBy0 else Inr signature)"
    "r \<noteq> 0 \<longrightarrow>
       RedDSA_verify scalar_curve (take 8) [1, 2, 3] signature vkBytes =
         (if S = 0 \<or> c = 0 then Inl CannotMultiplyBy0 else Inr True)"
    by blast
  moreover from this have "r = 3631138604028277321" "c = 3631138604028277321"
    "S = 10893415812084831963"
    by (simp_all add: hStar_take8 sk L_def)
  moreover from calculation have "length signature = 64" by (simp add: scalar_curve_def)
  ultimately show ?thesis by simp
qed

end
